theory Spec2Isabelle
  imports Complex_Main "HOL-Library.Sublist"
begin

section \<open>The storefront component \<^verbatim>\<open>App\<close> of \<^verbatim>\<open>src/app/app.ts\<close>\<close>

text \<open>
  The component keeps its state in signals and changes it by replacing whole values.
  It is modelled by a record of the signals' current values; every method takes the
  state and returns the new one, and the computed signals are functions of the state.

  Strings are lists of \<^typ>\<open>char\<close>, read as the characters of the source's strings where
  these are ASCII.
\<close>

subsection \<open>Numbers\<close>

text \<open>
  A value of the TypeScript type \<^verbatim>\<open>number\<close> is a double. The finite doubles are modelled
  by the rationals they denote (\<^typ>\<open>rat\<close>); \<^verbatim>\<open>NaN\<close> and the infinities have no
  counterpart. Comparison, \<^verbatim>\<open>Math.floor\<close>, the remainder by 1 and \<^verbatim>\<open>toFixed\<close> are exact
  on doubles and are exact in the model. Addition and multiplication round their exact
  result to the nearest double, the even one of two nearest; \<open>roundDouble\<close> is that
  rounding, written out for the normal and the subnormal range. A result beyond the
  largest double, where JavaScript gives \<^verbatim>\<open>Infinity\<close>, is not modelled.

  Product ids and rating counts are only compared or kept, never computed with; they are
  modelled by \<^typ>\<open>int\<close>.
\<close>

text \<open>The number of binary digits of a positive integer.\<close>

function bits :: "int \<Rightarrow> int" where
  "bits n = (if n \<le> 0 then 0 else bits (n div 2) + 1)"
  by pat_completeness auto
termination
  by (relation "measure nat") auto

declare bits.simps [simp del]

function twoTo :: "int \<Rightarrow> int" where
  "twoTo k = (if k \<le> 0 then 1 else 2 * twoTo (k - 1))"
  by pat_completeness auto
termination
  by (relation "measure nat") auto

declare twoTo.simps [simp del]

text \<open>The power of two with an integer exponent, negative ones included.\<close>

definition pow2 :: "int \<Rightarrow> rat" where
  "pow2 k = (if 0 \<le> k then of_int (twoTo k) else 1 / of_int (twoTo (- k)))"

text \<open>
  The binary exponent of a positive number \<open>a\<close>: the \<open>e\<close> with \<open>2\<^sup>e \<le> a < 2\<^sup>e\<^sup>+\<^sup>1\<close>.
\<close>

definition binaryExponent :: "rat \<Rightarrow> int" where
  "binaryExponent a = (if 1 \<le> a then bits \<lfloor>a\<rfloor> - 1 else - bits (\<lceil>1 / a\<rceil> - 1))"

text \<open>Rounding to the nearest integer, to the even one of two nearest.\<close>

definition roundHalfEven :: "rat \<Rightarrow> int" where
  "roundHalfEven y =
     (let f = \<lfloor>y\<rfloor>; d = y - of_int f
      in if d < 1 / 2 then f else if 1 / 2 < d then f + 1 else if even f then f else f + 1)"

text \<open>
  Rounding to the nearest double: a double has 53 binary digits, so the numbers from
  \<open>2\<^sup>e\<close> up to \<open>2\<^sup>e\<^sup>+\<^sup>1\<close> are rounded to a multiple of \<open>2\<^sup>e\<^sup>-\<^sup>5\<^sup>2\<close>; the exponent does not go below
  -1022 (the subnormal numbers are the multiples of \<open>2\<^sup>-\<^sup>1\<^sup>0\<^sup>7\<^sup>4\<close>).
\<close>

definition roundDouble :: "rat \<Rightarrow> rat" where
  "roundDouble x =
     (if x = 0 then 0
      else (let a = \<bar>x\<bar>;
                e = max (binaryExponent a) (- 1022);
                u = pow2 (e - 52)
            in sgn x * of_int (roundHalfEven (a / u)) * u))"

text \<open>The operators \<^verbatim>\<open>+\<close> and \<^verbatim>\<open>*\<close> on numbers.\<close>

definition plusNumber :: "rat \<Rightarrow> rat \<Rightarrow> rat" where
  "plusNumber x y = roundDouble (x + y)"

definition timesNumber :: "rat \<Rightarrow> rat \<Rightarrow> rat" where
  "timesNumber x y = roundDouble (x * y)"

text \<open>
  A number written in the source or in JSON as a decimal stands for the double nearest
  to it.
\<close>

definition numberLiteral :: "rat \<Rightarrow> rat" where
  "numberLiteral x = roundDouble x"

subsection \<open>Interfaces\<close>

record Rating =
  rate :: rat
  count :: int

text \<open>The fields \<^verbatim>\<open>id\<close> and \<^verbatim>\<open>image\<close> carry a prime: both names are HOL constants.\<close>

record Product =
  id' :: int
  title :: string
  price :: rat
  description :: string
  category :: string
  image' :: string
  rating :: Rating

text \<open>\<^verbatim>\<open>interface CartItem extends Product\<close>\<close>

record CartItem = Product +
  quantity :: rat

subsection \<open>The signals\<close>

record App =
  products :: "Product list"
  categories :: "string list"
  cart :: "CartItem list"
  currentFilter :: string
  searchQuery :: string
  featuredProduct :: "Product option"
  isLoading :: bool
  showApiWarning :: bool

text \<open>The state a fresh component starts in (the initial values of the signals).\<close>

definition initialApp :: App where
  "initialApp =
     \<lparr>products = [], categories = [], cart = [], currentFilter = ''all'',
      searchQuery = [], featuredProduct = None, isLoading = False,
      showApiWarning = False\<rparr>"

subsection \<open>String operations of the platform\<close>

text \<open>
  \<^verbatim>\<open>String.prototype.toLowerCase\<close>, character by character; the letters \<^verbatim>\<open>A\<close> to \<^verbatim>\<open>Z\<close>
  (codes 65 to 90) move to \<^verbatim>\<open>a\<close> to \<^verbatim>\<open>z\<close>, every other character stays. The case
  mappings of Unicode beyond ASCII are not modelled.
\<close>

definition toLowerCaseChar :: "char \<Rightarrow> char" where
  "toLowerCaseChar c =
     (let n = (of_char c :: nat) in if 65 \<le> n \<and> n \<le> 90 then char_of (n + 32) else c)"

definition toLowerCase :: "string \<Rightarrow> string" where
  "toLowerCase str = map toLowerCaseChar str"

text \<open>
  \<^verbatim>\<open>str.includes(search)\<close>: the search string is looked for at every position of
  \<^verbatim>\<open>str\<close>, from the left.
\<close>

fun includesStr :: "string \<Rightarrow> string \<Rightarrow> bool" where
  "includesStr [] search = (search = [])"
| "includesStr (c # cs) search = (prefix search (c # cs) \<or> includesStr cs search)"

subsection \<open>Computed values\<close>

text \<open>\<^verbatim>\<open>filteredProducts\<close>. The empty string is the only falsy string, so \<^verbatim>\<open>!search\<close> is
  \<open>search = []\<close>.\<close>

definition filteredProducts :: "App \<Rightarrow> Product list" where
  "filteredProducts s =
     (let search = toLowerCase (searchQuery s) in
      filter (\<lambda>product.
        let matchesCategory =
              (currentFilter s = ''all'' \<or> category product = currentFilter s);
            matchesSearch =
              (search = [] \<or>
               includesStr (toLowerCase (title product)) search \<or>
               includesStr (toLowerCase (description product)) search \<or>
               includesStr (toLowerCase (category product)) search)
        in matchesCategory \<and> matchesSearch) (products s))"

text \<open>
  \<^verbatim>\<open>cartCount\<close> and \<^verbatim>\<open>cartTotal\<close>: \<^verbatim>\<open>reduce\<close> with a start value is a left fold; every
  sum and product is one of doubles.
\<close>

definition cartCount :: "App \<Rightarrow> rat" where
  "cartCount s = foldl (\<lambda>total item. plusNumber total (quantity item)) 0 (cart s)"

definition cartTotal :: "App \<Rightarrow> rat" where
  "cartTotal s =
     foldl (\<lambda>total item. plusNumber total (timesNumber (price item) (quantity item))) 0
       (cart s)"

subsection \<open>Sample data\<close>

definition sampleProducts :: "Product list" where
  \<open>sampleProducts =
     [\<lparr>id' = 1,
       title = ''Premium Wireless Headphones'',
       price = numberLiteral (12999 / 100),
       description = ''High-quality wireless headphones with noise cancellation and premium sound quality. Perfect for music lovers and professionals.'',
       category = ''electronics'',
       image' = ''https://images.unsplash.com/photo-1505740420928-5e560c06d30e?w=300&h=300&fit=crop'',
       rating = \<lparr>rate = 9 / 2, count = 120\<rparr>\<rparr>]\<close>

definition sampleCategories :: "string list" where
  "sampleCategories = [''electronics'', ''jewelery'', ''men's clothing'', ''women's clothing'']"

subsection \<open>Loading\<close>

text \<open>
  What \<^verbatim>\<open>firstValueFrom(this.http.get(...))\<close> does when awaited: it rejects (the request
  did not get through, the status was not a success, or the body could not be parsed),
  or it resolves with the body, which is \<^verbatim>\<open>null\<close> (\<open>None\<close>) for an empty body and a list
  otherwise.
\<close>

datatype http_error = NetworkFailure | ErrorStatus nat | MalformedPayload

type_synonym 'a response = "http_error + 'a list option"

text \<open>What the inner \<^verbatim>\<open>try\<close> block can throw.\<close>

datatype api_error = RequestFailed http_error | NoData

text \<open>The inner \<^verbatim>\<open>try\<close> block of \<^verbatim>\<open>loadProducts\<close>.\<close>

definition fetchProducts :: "Product response \<Rightarrow> App \<Rightarrow> api_error + App" where
  "fetchProducts r s =
     (case r of
        Inl e \<Rightarrow> Inl (RequestFailed e)
      | Inr response \<Rightarrow>
          (case response of
             None \<Rightarrow> Inl NoData
           | Some ps \<Rightarrow> if length ps > 0 then Inr (s\<lparr>products := ps\<rparr>) else Inl NoData))"

text \<open>
  \<^verbatim>\<open>loadProducts\<close>. Nothing in the inner \<^verbatim>\<open>catch\<close> throws, so the outer \<^verbatim>\<open>catch\<close> is
  never entered; the \<^verbatim>\<open>finally\<close> block runs last.
\<close>

definition loadProducts :: "Product response \<Rightarrow> App \<Rightarrow> App" where
  "loadProducts r s =
     (let s1 = s\<lparr>isLoading := True, showApiWarning := False\<rparr>;
          s2 = (case fetchProducts r s1 of
                  Inr s' \<Rightarrow> s'
                | Inl apiError \<Rightarrow> s1\<lparr>products := sampleProducts, showApiWarning := True\<rparr>)
      in s2\<lparr>isLoading := False\<rparr>)"

definition fetchCategories :: "string response \<Rightarrow> App \<Rightarrow> api_error + App" where
  "fetchCategories r s =
     (case r of
        Inl e \<Rightarrow> Inl (RequestFailed e)
      | Inr response \<Rightarrow>
          (case response of
             None \<Rightarrow> Inl NoData
           | Some cs \<Rightarrow> if length cs > 0 then Inr (s\<lparr>categories := cs\<rparr>) else Inl NoData))"

definition loadCategories :: "string response \<Rightarrow> App \<Rightarrow> App" where
  "loadCategories r s =
     (case fetchCategories r s of
        Inr s' \<Rightarrow> s'
      | Inl apiError \<Rightarrow> s\<lparr>categories := sampleCategories\<rparr>)"

text \<open>
  Reading an array at an index: \<^verbatim>\<open>undefined\<close> (\<open>None\<close>) outside the array.
\<close>

definition at_index :: "'a list \<Rightarrow> int \<Rightarrow> 'a option" where
  "at_index xs i = (if 0 \<le> i \<and> i < int (length xs) then Some (xs ! nat i) else None)"

text \<open>
  \<^verbatim>\<open>loadFeaturedProduct\<close>. The value \<open>random\<close> is what \<^verbatim>\<open>Math.random()\<close> returns, a
  number from 0 up to but not including 1. The product with the length is taken exactly
  here; the product of doubles can differ from it in the last place, and it stays below
  the length as well.
\<close>

definition loadFeaturedProduct :: "rat \<Rightarrow> App \<Rightarrow> App" where
  "loadFeaturedProduct random s =
     (if length (products s) > 0
      then (let randomIndex = \<lfloor>random * of_nat (length (products s))\<rfloor>
            in s\<lparr>featuredProduct := at_index (products s) randomIndex\<rparr>)
      else s)"

subsection \<open>Start-up\<close>

text \<open>
  \<^verbatim>\<open>ngOnInit\<close>: the two loads, one after the other, then the pick of the featured
  product. The arguments are the outcomes of the two requests and the random number.
\<close>

definition ngOnInit :: "Product response \<Rightarrow> string response \<Rightarrow> rat \<Rightarrow> App \<Rightarrow> App" where
  "ngOnInit rp rc random s = loadFeaturedProduct random (loadCategories rc (loadProducts rp s))"

subsection \<open>The cart\<close>

definition addToCart :: "int \<Rightarrow> App \<Rightarrow> App" where
  "addToCart productId s =
     (case find (\<lambda>p. id' p = productId) (products s) of
        None \<Rightarrow> s
      | Some product \<Rightarrow>
          (let currentCart = cart s in
           case find (\<lambda>item. id' item = productId) currentCart of
             Some existingItem \<Rightarrow>
               s\<lparr>cart := map (\<lambda>item. if id' item = productId
                                      then item\<lparr>quantity := plusNumber (quantity item) 1\<rparr>
                                      else item) currentCart\<rparr>
           | None \<Rightarrow>
               s\<lparr>cart := currentCart @ [Product.extend product (CartItem.fields 1)]\<rparr>))"

definition removeFromCart :: "int \<Rightarrow> App \<Rightarrow> App" where
  "removeFromCart productId s =
     s\<lparr>cart := filter (\<lambda>item. id' item \<noteq> productId) (cart s)\<rparr>"

definition updateCartItemQuantity :: "int \<Rightarrow> rat \<Rightarrow> App \<Rightarrow> App" where
  "updateCartItemQuantity productId qty s =
     (if qty \<le> 0 then removeFromCart productId s
      else s\<lparr>cart := map (\<lambda>item. if id' item = productId
                                  then item\<lparr>quantity := qty\<rparr>
                                  else item) (cart s)\<rparr>)"

definition clearCart :: "App \<Rightarrow> App" where
  "clearCart s = s\<lparr>cart := []\<rparr>"

subsection \<open>Filter state\<close>

definition onSearchChange :: "string \<Rightarrow> App \<Rightarrow> App" where
  "onSearchChange query s = s\<lparr>searchQuery := query\<rparr>"

definition onCategoryFilter :: "string \<Rightarrow> App \<Rightarrow> App" where
  "onCategoryFilter c s = s\<lparr>currentFilter := c\<rparr>"

subsection \<open>Star rating\<close>

text \<open>
  The remainder operator \<^verbatim>\<open>x % y\<close> on numbers, for a divisor other than 0: the quotient
  is rounded towards zero, so the result has the sign of \<open>x\<close>. The program uses it with
  the divisor 1 only.
\<close>

definition remainder :: "rat \<Rightarrow> rat \<Rightarrow> rat" where
  "remainder x y =
     (let q = x / y; t = (if q < 0 then \<lceil>q\<rceil> else \<lfloor>q\<rfloor>) in x - y * of_int t)"

definition fullStar :: string where
  \<open>fullStar = ''<i class="bi bi-star-fill text-warning"></i>''\<close>

definition halfStar :: string where
  \<open>halfStar = ''<i class="bi bi-star-half text-warning"></i>''\<close>

definition emptyStar :: string where
  \<open>emptyStar = ''<i class="bi bi-star text-warning"></i>''\<close>

text \<open>
  The loop \<^verbatim>\<open>for (let i = 0; i < n; i++) { stars += marker; }\<close>, entered with the counter
  at \<open>i\<close>.
\<close>

function appendStars :: "int \<Rightarrow> int \<Rightarrow> string \<Rightarrow> string \<Rightarrow> string" where
  "appendStars i n marker stars =
     (if i < n then appendStars (i + 1) n marker (stars @ marker) else stars)"
  by pat_completeness auto
termination
  by (relation "measure (\<lambda>(i, n, marker, stars). nat (n - i))") auto

declare appendStars.simps [simp del]

definition generateStars :: "rat \<Rightarrow> string" where
  "generateStars r =
     (let fullStars = \<lfloor>r\<rfloor>;
          hasHalfStar = (remainder r 1 \<ge> 1 / 2);
          emptyStars = 5 - fullStars - (if hasHalfStar then 1 else 0);
          stars0 = [];
          stars1 = appendStars 0 fullStars fullStar stars0;
          stars2 = (if hasHalfStar then stars1 @ halfStar else stars1);
          stars3 = appendStars 0 emptyStars emptyStar stars2
      in stars3)"

text \<open>
  Reading a rendering back: the numbers of full, half and empty markers of a string made
  of markers only, \<open>None\<close> for any other string.
\<close>

function markerCounts :: "string \<Rightarrow> (nat \<times> nat \<times> nat) option" where
  "markerCounts str =
     (if str = [] then Some (0, 0, 0)
      else if prefix fullStar str
        then map_option (\<lambda>(f, h, e). (f + 1, h, e)) (markerCounts (drop (length fullStar) str))
      else if prefix halfStar str
        then map_option (\<lambda>(f, h, e). (f, h + 1, e)) (markerCounts (drop (length halfStar) str))
      else if prefix emptyStar str
        then map_option (\<lambda>(f, h, e). (f, h, e + 1)) (markerCounts (drop (length emptyStar) str))
      else None)"
  by pat_completeness auto
termination
  by (relation "measure length") (auto simp: fullStar_def halfStar_def emptyStar_def)

declare markerCounts.simps [simp del]

subsection \<open>Checkout\<close>

text \<open>
  The decimal digits of an integer that is not negative, as string conversion writes
  them.
\<close>

definition digitChar :: "int \<Rightarrow> char" where
  "digitChar d = ''0123456789'' ! nat d"

function digits :: "int \<Rightarrow> string" where
  "digits n =
     (if n < 10 then [digitChar n]
      else digits (n div 10) @ [digitChar (n mod 10)])"
  by pat_completeness auto
termination
  by (relation "measure nat") auto

declare digits.simps [simp del]

function tenTo :: "int \<Rightarrow> int" where
  "tenTo k = (if k \<le> 0 then 1 else 10 * tenTo (k - 1))"
  by pat_completeness auto
termination
  by (relation "measure nat") auto

declare tenTo.simps [simp del]

definition pow10 :: "int \<Rightarrow> rat" where
  "pow10 k = (if 0 \<le> k then of_int (tenTo k) else 1 / of_int (tenTo (- k)))"

text \<open>
  The decimal exponent of a positive number \<open>a\<close>: the \<open>e\<close> with
  \<open>10\<^sup>e \<le> a < 10\<^sup>e\<^sup>+\<^sup>1\<close>.
\<close>

definition decimalExponent :: "rat \<Rightarrow> int" where
  "decimalExponent a =
     (if 1 \<le> a then int (length (digits \<lfloor>a\<rfloor>)) - 1
      else - int (length (digits (\<lceil>1 / a\<rceil> - 1))))"

text \<open>
  The digits of a positive number, as ECMAScript's \<^verbatim>\<open>Number::toString\<close> chooses them:
  integers \<open>s\<close> and \<open>n\<close> with \<open>s\<close> of \<open>k\<close> digits, \<open>k\<close> as small as possible, such that
  \<open>s * 10\<^sup>n\<^sup>-\<^sup>k\<close> rounds to the number; of two such \<open>s\<close> the one nearer to the number.
  The search starts at \<open>k\<close> digits and has \<open>fuel\<close> more lengths to try; 17 digits always
  suffice for a double.
\<close>

fun shortest :: "nat \<Rightarrow> int \<Rightarrow> rat \<Rightarrow> int \<Rightarrow> int \<times> int" where
  "shortest fuel k x n =
     (let scale = pow10 (n - k);
          lo = \<lfloor>x / scale\<rfloor>;
          hi = lo + 1;
          okLo = (roundDouble (of_int lo * scale) = x);
          okHi = (roundDouble (of_int hi * scale) = x);
          nearer = (if x - of_int lo * scale < of_int hi * scale - x then lo
                    else if of_int hi * scale - x < x - of_int lo * scale then hi
                    else if even lo then lo else hi);
          s = (if okLo \<and> okHi then nearer else if okLo then lo else if okHi then hi
               else nearer)
      in if okLo \<or> okHi \<or> fuel = 0
         then (if s = tenTo k then (tenTo (k - 1), n + 1) else (s, n))
         else shortest (fuel - 1) (k + 1) x n)"

declare shortest.simps [simp del]

text \<open>
  \<^verbatim>\<open>Number::toString\<close> on a positive number: plain digits up to 21 places before the
  point and 6 zeros after it, an exponent beyond.
\<close>

definition positiveToString :: "rat \<Rightarrow> string" where
  "positiveToString x =
     (let (s, n) = shortest 16 1 x (decimalExponent x + 1);
          ds = digits s;
          k = int (length ds)
      in if k \<le> n \<and> n \<le> 21 then ds @ replicate (nat (n - k)) (CHR ''0'')
         else if 0 < n \<and> n \<le> 21 then take (nat n) ds @ ''.'' @ drop (nat n) ds
         else if - 6 < n \<and> n \<le> 0 then ''0.'' @ replicate (nat (- n)) (CHR ''0'') @ ds
         else (let e = n - 1;
                   es = (if e < 0 then ''-'' else ''+'') @ digits \<bar>e\<bar>
               in if k = 1 then ds @ ''e'' @ es
                  else take 1 ds @ ''.'' @ drop 1 ds @ ''e'' @ es))"

text \<open>The string a template literal puts in for a number.\<close>

definition numberToString :: "rat \<Rightarrow> string" where
  "numberToString x =
     (if x = 0 then ''0''
      else if x < 0 then ''-'' @ positiveToString (- x)
      else positiveToString x)"

text \<open>
  \<^verbatim>\<open>x.toFixed(2)\<close>, as ECMAScript defines \<^verbatim>\<open>Number.prototype.toFixed\<close>: the sign is split
  off; a number of \<open>10\<^sup>2\<^sup>1\<close> or more is written as \<^verbatim>\<open>Number::toString\<close> writes it;
  otherwise \<open>n\<close> is the integer nearest to \<open>100 * x\<close> (the larger one of two), its digits
  are padded with zeros to three places at least, and the point goes before the last two.
\<close>

definition toFixed2 :: "rat \<Rightarrow> string" where
  "toFixed2 x0 =
     (let sgn = (if x0 < 0 then ''-'' else []);
          x = (if x0 < 0 then - x0 else x0)
      in if 1000000000000000000000 \<le> x then sgn @ positiveToString x
         else (let n = \<lfloor>x * 100 + 1 / 2\<rfloor>;
                   m0 = digits n;
                   m = (if length m0 \<le> 2 then replicate (3 - length m0) (CHR ''0'') @ m0
                        else m0);
                   k = length m
               in sgn @ take (k - 2) m @ ''.'' @ drop (k - 2) m))"

text \<open>
  \<^verbatim>\<open>checkout\<close>. The result carries what \<^verbatim>\<open>alert\<close> was called with, \<open>None\<close> when it was
  not called.
\<close>

definition checkout :: "App \<Rightarrow> string option \<times> App" where
  "checkout s =
     (if length (cart s) = 0 then (None, s)
      else (let total = cartTotal s;
                itemCount = cartCount s;
                message = ''Checkout successful!'' @ [CHR 0x0A] @ ''Total: '' @ toFixed2 total
                          @ [CHR 0x0A] @ ''Items: '' @ numberToString itemCount
            in (Some message, clearCart s)))"

subsection \<open>Notions of the specification\<close>







text \<open>
  The invariant of the cart: every quantity is 1 at least, and no two entries have the
  same product id.
\<close>

definition cartInvariant :: "CartItem list \<Rightarrow> bool" where
  "cartInvariant c = (list_all (\<lambda>item. 1 \<le> quantity item) c \<and> distinct (map id' c))"

text \<open>Whole numbers, and those of them on which adding 1 is exact.\<close>

definition isWhole :: "rat \<Rightarrow> bool" where
  "isWhole x = (of_int \<lfloor>x\<rfloor> = x)"

definition isSafeInteger :: "rat \<Rightarrow> bool" where
  "isSafeInteger x = (isWhole x \<and> \<bar>x\<bar> < 9007199254740992)"

text \<open>
  Reading decimal digits: the characters \<^verbatim>\<open>0\<close> to \<^verbatim>\<open>9\<close> have the codes 48 to 57, and a
  string of digits stands for the number its digits make up, the first digit weighing
  most.
\<close>

definition isDigit :: "char \<Rightarrow> bool" where
  "isDigit c = (48 \<le> (of_char c :: nat) \<and> (of_char c :: nat) \<le> 57)"

definition digitValue :: "char \<Rightarrow> int" where
  "digitValue c = int (of_char c) - 48"

definition decimalValue :: "string \<Rightarrow> int" where
  "decimalValue str = foldl (\<lambda>v c. 10 * v + digitValue c) 0 str"

section \<open>Verified properties\<close>

subsection \<open>Numbers\<close>

lemma twoTo_power: "twoTo k = 2 ^ nat k"
proof (induction k rule: twoTo.induct)
  case (1 k)
  show ?case
  proof (cases "k \<le> 0")
    case True
    then show ?thesis by (subst twoTo.simps) simp
  next
    case False
    then have "nat k = Suc (nat (k - 1))" by simp
    with False 1 show ?thesis by (subst twoTo.simps) simp
  qed
qed

lemma pow2_powi: "pow2 k = 2 powi k"
  by (simp add: pow2_def twoTo_power power_int_def inverse_eq_divide power_one_over)

lemma pow2_pos: "0 < pow2 k"
  by (simp add: pow2_powi)

lemma pow2_add: "pow2 (j + k) = pow2 j * pow2 k"
  by (simp add: pow2_powi power_int_add)

lemma pow2_nat: "0 \<le> k \<Longrightarrow> pow2 k = 2 ^ nat k"
  by (simp add: pow2_def twoTo_power)

lemma bits_bounds:
  "0 < n \<Longrightarrow> 1 \<le> bits n \<and> 2 ^ nat (bits n - 1) \<le> n \<and> n < 2 ^ nat (bits n)"
proof (induction n rule: bits.induct)
  case (1 n)
  show ?case
  proof (cases "n = 1")
    case True
    have "bits 1 = 1"
      by (subst bits.simps, subst bits.simps) simp
    with True show ?thesis by simp
  next
    case False
    with 1(2) have h: "0 < n div 2" by simp
    have b: "bits n = bits (n div 2) + 1"
      using 1(2) by (subst bits.simps) simp
    from 1(1) h 1(2) have ih: "1 \<le> bits (n div 2)" "2 ^ nat (bits (n div 2) - 1) \<le> n div 2"
      "n div 2 < 2 ^ nat (bits (n div 2))"
      by simp_all
    have s: "nat (bits (n div 2)) = Suc (nat (bits (n div 2) - 1))"
      using ih(1) by simp
    have p: "(2::int) ^ nat (bits (n div 2)) = 2 * 2 ^ nat (bits (n div 2) - 1)"
      by (subst s) simp
    have lo: "2 ^ nat (bits (n div 2)) \<le> n"
      unfolding p using ih(2) by linarith
    have hi: "n < 2 * 2 ^ nat (bits (n div 2))"
      using ih(3) by linarith
    have t: "nat (bits (n div 2) + 1) = Suc (nat (bits (n div 2)))"
      using ih(1) by simp
    have "1 \<le> bits n"
      unfolding b using ih(1) by simp
    moreover have "2 ^ nat (bits n - 1) \<le> n"
      unfolding b using lo by simp
    moreover have "n < 2 ^ nat (bits n)"
      unfolding b t using hi by simp
    ultimately show ?thesis by blast
  qed
qed

lemma binaryExponent_bounds:
  assumes "0 < a"
  shows "pow2 (binaryExponent a) \<le> a \<and> a < pow2 (binaryExponent a + 1)"
proof (cases "1 \<le> a")
  case True
  define N where "N = \<lfloor>a\<rfloor>"
  have N: "1 \<le> N" "of_int N \<le> a" "a < of_int N + 1"
    using True by (simp_all add: N_def le_floor_iff) linarith
  have b: "1 \<le> bits N" "2 ^ nat (bits N - 1) \<le> N" "N < 2 ^ nat (bits N)"
    using bits_bounds [of N] N(1) by simp_all
  have e: "binaryExponent a = bits N - 1"
    using True by (simp add: binaryExponent_def N_def)
  have "pow2 (bits N - 1) = of_int (2 ^ nat (bits N - 1))"
    using b(1) by (simp add: pow2_nat)
  also have "\<dots> \<le> of_int N"
    using b(2) by (simp only: of_int_le_iff)
  finally have lo: "pow2 (bits N - 1) \<le> a"
    using N(2) by simp
  have "N + 1 \<le> 2 ^ nat (bits N)"
    using b(3) by simp
  then have "(of_int (N + 1) :: rat) \<le> of_int (2 ^ nat (bits N))"
    by (simp only: of_int_le_iff)
  then have "a < of_int (2 ^ nat (bits N))"
    using N(3) by simp
  moreover have "pow2 (bits N - 1 + 1) = of_int (2 ^ nat (bits N))"
    using b(1) by (simp add: pow2_nat)
  ultimately show ?thesis
    unfolding e using lo by simp
next
  case False
  define y where "y = 1 / a"
  define M where "M = \<lceil>y\<rceil> - 1"
  have y: "1 < y" "a = 1 / y"
    using False assms by (simp_all add: y_def)
  have M: "1 \<le> M" "of_int M < y" "y \<le> of_int M + 1"
    using y(1) by (simp_all add: M_def less_ceiling_iff) linarith+
  have b: "1 \<le> bits M" "2 ^ nat (bits M - 1) \<le> M" "M < 2 ^ nat (bits M)"
    using bits_bounds [of M] M(1) by simp_all
  have e: "binaryExponent a = - bits M"
    using False by (simp add: binaryExponent_def M_def y_def)
  have "M + 1 \<le> 2 ^ nat (bits M)"
    using b(3) by simp
  then have "(of_int (M + 1) :: rat) \<le> of_int (2 ^ nat (bits M))"
    by (simp only: of_int_le_iff)
  also have "\<dots> = 2 ^ nat (bits M)"
    by simp
  finally have yle: "y \<le> 2 ^ nat (bits M)"
    using M(3) by simp
  have "(2::rat) ^ nat (bits M - 1) = of_int (2 ^ nat (bits M - 1))"
    by simp
  also have "\<dots> \<le> of_int M"
    using b(2) by (simp only: of_int_le_iff)
  finally have ygt: "2 ^ nat (bits M - 1) < y"
    using M(2) by linarith
  have p1: "pow2 (- bits M) = 1 / 2 ^ nat (bits M)"
    using b(1) by (simp add: pow2_def twoTo_power)
  have p2: "pow2 (- bits M + 1) = 1 / 2 ^ nat (bits M - 1)"
  proof (cases "bits M = 1")
    case True
    then show ?thesis by (simp add: pow2_def twoTo_power)
  next
    case False
    then have "- bits M + 1 < 0" using b(1) by simp
    moreover have "- (- bits M + 1) = bits M - 1" by simp
    ultimately show ?thesis by (simp add: pow2_def twoTo_power)
  qed
  have "1 / 2 ^ nat (bits M) \<le> 1 / y"
    using yle y(1) by (simp add: frac_le)
  moreover have "1 / y < 1 / 2 ^ nat (bits M - 1)"
    using ygt by (simp add: frac_less2)
  ultimately have "pow2 (- bits M) \<le> a \<and> a < pow2 (- bits M + 1)"
    unfolding p1 p2 y(2) by simp
  then show ?thesis
    unfolding e .
qed

lemma pow2_mono: "j \<le> k \<Longrightarrow> pow2 j \<le> pow2 k"
  by (simp add: pow2_powi power_int_increasing)

lemma pow2_less_imp: "pow2 j < pow2 k \<Longrightarrow> j < k"
  using pow2_mono [of k j] by (cases "j < k") simp_all

lemma roundHalfEven_of_int: "roundHalfEven (of_int n) = n"
  by (simp add: roundHalfEven_def)

lemma roundHalfEven_ge_floor: "\<lfloor>y\<rfloor> \<le> roundHalfEven y"
  by (simp add: roundHalfEven_def Let_def)

lemma roundDouble_scaled:
  assumes m: "0 < m" "m < 2 ^ 53" and k: "- 1074 \<le> k"
  shows "roundDouble (of_int m * pow2 k) = of_int m * pow2 k"
proof -
  define a where "a = of_int m * pow2 k"
  have apos: "0 < a"
    using m(1) pow2_pos [of k] by (simp add: a_def)
  define e where "e = max (binaryExponent a) (- 1022)"
  have "pow2 (binaryExponent a) \<le> a"
    using binaryExponent_bounds [OF apos] by simp
  also have "a < 2 ^ 53 * pow2 k"
    unfolding a_def using m(2) pow2_pos [of k] by simp
  also have "\<dots> = pow2 (53 + k)"
    by (simp add: pow2_add pow2_nat)
  finally have "binaryExponent a < 53 + k"
    by (rule pow2_less_imp)
  then have j: "0 \<le> k - (e - 52)"
    using k by (simp add: e_def)
  define j where "j = k - (e - 52)"
  have "pow2 k = pow2 j * pow2 (e - 52)"
    unfolding j_def by (simp add: pow2_add [symmetric])
  then have s: "a = of_int (m * 2 ^ nat j) * pow2 (e - 52)"
    using j by (simp add: a_def pow2_nat j_def)
  have "a / pow2 (e - 52) = of_int (m * 2 ^ nat j)"
    using pow2_pos [of "e - 52"] by (subst s) simp
  then have r: "roundHalfEven (a / pow2 (e - 52)) = m * 2 ^ nat j"
    by (simp only: roundHalfEven_of_int)
  have "roundDouble a = of_int (roundHalfEven (a / pow2 (e - 52))) * pow2 (e - 52)"
    using apos by (simp add: roundDouble_def Let_def e_def)
  also have "\<dots> = a"
    unfolding r by (rule s [symmetric])
  finally have "roundDouble a = a" .
  then show ?thesis
    by (simp add: a_def)
qed

lemma roundDouble_minus: "roundDouble (- x) = - roundDouble x"
  by (simp add: roundDouble_def Let_def sgn_minus)

lemma roundDouble_integer:
  assumes "\<bar>i\<bar> \<le> 2 ^ 53"
  shows "roundDouble (of_int i) = of_int i"
proof -
  have pos: "roundDouble (of_int n) = of_int n" if "0 < n" "n \<le> 2 ^ 53" for n :: int
  proof (cases "n = 2 ^ 53")
    case True
    have "roundDouble (of_int (2 ^ 52) * pow2 1) = of_int (2 ^ 52) * pow2 1"
      by (rule roundDouble_scaled) simp_all
    moreover have "of_int (2 ^ 52) * pow2 1 = (of_int (2 ^ 53) :: rat)"
      by (simp add: pow2_nat)
    ultimately show ?thesis
      using True by simp
  next
    case False
    with that have "roundDouble (of_int n * pow2 0) = of_int n * pow2 0"
      by (intro roundDouble_scaled) simp_all
    then show ?thesis
      by (simp add: pow2_nat)
  qed
  consider "i = 0" | "0 < i" | "i < 0" by linarith
  then show ?thesis
  proof cases
    case 1
    then show ?thesis by (simp add: roundDouble_def)
  next
    case 2
    with assms show ?thesis by (simp add: pos)
  next
    case 3
    with assms have "roundDouble (of_int (- i)) = of_int (- i)"
      by (intro pos) simp_all
    then show ?thesis
      using roundDouble_minus [of "of_int i"] by simp
  qed
qed

lemma roundDouble_ge_pow2:
  assumes "- 1022 \<le> e" and "pow2 e \<le> x"
  shows "pow2 e \<le> roundDouble x"
proof -
  have xpos: "0 < x"
    using assms(2) pow2_pos [of e] by linarith
  define b where "b = binaryExponent x"
  have b: "pow2 b \<le> x" "x < pow2 (b + 1)"
    using binaryExponent_bounds [OF xpos] by (simp_all add: b_def)
  have "pow2 e < pow2 (b + 1)"
    using assms(2) b(2) by linarith
  then have eb: "e \<le> b"
    using pow2_less_imp [of e "b + 1"] by simp
  then have mx: "max b (- 1022) = b"
    using assms(1) by simp
  have "pow2 b = pow2 52 * pow2 (b - 52)"
    by (simp add: pow2_add [symmetric])
  then have "pow2 52 * pow2 (b - 52) \<le> x"
    using b(1) by simp
  then have "pow2 52 \<le> x / pow2 (b - 52)"
    using pow2_pos [of "b - 52"] by (simp add: pos_le_divide_eq)
  then have "of_int (2 ^ 52) \<le> x / pow2 (b - 52)"
    by (simp add: pow2_nat)
  then have "2 ^ 52 \<le> \<lfloor>x / pow2 (b - 52)\<rfloor>"
    by (simp only: le_floor_iff)
  then have "2 ^ 52 \<le> roundHalfEven (x / pow2 (b - 52))"
    using roundHalfEven_ge_floor [of "x / pow2 (b - 52)"] by linarith
  then have "(of_int (2 ^ 52) :: rat) \<le> of_int (roundHalfEven (x / pow2 (b - 52)))"
    by (simp only: of_int_le_iff)
  then have "of_int (2 ^ 52) * pow2 (b - 52) \<le> of_int (roundHalfEven (x / pow2 (b - 52))) * pow2 (b - 52)"
    using pow2_pos [of "b - 52"] by (simp only: mult_le_cancel_right) simp
  moreover have "of_int (2 ^ 52) * pow2 (b - 52) = pow2 b"
    using \<open>pow2 b = pow2 52 * pow2 (b - 52)\<close> by (simp add: pow2_nat)
  moreover have "roundDouble x = of_int (roundHalfEven (x / pow2 (b - 52))) * pow2 (b - 52)"
    using xpos by (simp add: roundDouble_def Let_def b_def [symmetric] mx)
  ultimately have "pow2 b \<le> roundDouble x"
    by simp
  then show ?thesis
    using pow2_mono [OF eb] by linarith
qed


lemma roundDouble_signed_scaled:
  assumes "\<bar>m\<bar> \<le> 2 ^ 53" and "- 1074 \<le> k"
  shows "roundDouble (of_int m * pow2 k) = of_int m * pow2 k"
proof -
  have pos: "roundDouble (of_int n * pow2 k) = of_int n * pow2 k" if "0 < n" "n \<le> 2 ^ 53" for n :: int
  proof (cases "n = 2 ^ 53")
    case True
    have "roundDouble (of_int (2 ^ 52) * pow2 (k + 1)) = of_int (2 ^ 52) * pow2 (k + 1)"
      using assms(2) by (intro roundDouble_scaled) simp_all
    moreover have "of_int (2 ^ 52) * pow2 (k + 1) = (of_int (2 ^ 53) :: rat) * pow2 k"
      by (simp add: pow2_add pow2_nat)
    ultimately show ?thesis
      using True by simp
  next
    case False
    with that assms(2) show ?thesis
      by (intro roundDouble_scaled) simp_all
  qed
  consider "m = 0" | "0 < m" | "m < 0" by linarith
  then show ?thesis
  proof cases
    case 1
    then show ?thesis by (simp add: roundDouble_def)
  next
    case 2
    with assms show ?thesis by (simp add: pos)
  next
    case 3
    with assms have "roundDouble (of_int (- m) * pow2 k) = of_int (- m) * pow2 k"
      by (intro pos) simp_all
    then show ?thesis
      using roundDouble_minus [of "of_int m * pow2 k"] by simp
  qed
qed

lemma roundDouble_dyadic:
  assumes w: "isWhole (x * 2 ^ j)" and b: "\<bar>x\<bar> * 2 ^ j \<le> 9007199254740992" and j: "j \<le> 1074"
  shows "roundDouble x = x"
proof -
  define m where "m = \<lfloor>x * 2 ^ j\<rfloor>"
  have m: "of_int m = x * 2 ^ j"
    using w by (simp add: isWhole_def m_def)
  have "\<bar>(of_int m :: rat)\<bar> \<le> 9007199254740992"
    unfolding m using b by (simp add: abs_mult)
  then have "(of_int \<bar>m\<bar> :: rat) \<le> of_int 9007199254740992"
    by simp
  then have "\<bar>m\<bar> \<le> 9007199254740992"
    by (simp only: of_int_le_iff)
  then have bm: "\<bar>m\<bar> \<le> 2 ^ 53"
    by simp
  have k: "- 1074 \<le> - int j"
    using j by simp
  have "pow2 (- int j) * 2 ^ j = 1"
    using pow2_add [of "- int j" "int j"] by (simp add: pow2_nat pow2_def twoTo_power)
  then have "x = of_int m * pow2 (- int j)"
    unfolding m by (simp add: mult.assoc mult.commute)
  then show ?thesis
    using roundDouble_signed_scaled [OF bm k] by simp
qed

lemma roundDouble_whole:
  assumes "isWhole x" and "\<bar>x\<bar> \<le> 9007199254740992"
  shows "roundDouble x = x"
  using roundDouble_dyadic [of x 0] assms by simp

lemma roundDouble_small:
  "roundDouble 1 = 1 \<and> roundDouble 2 = 2 \<and> roundDouble 3 = 3 \<and> roundDouble 5 = 5
   \<and> roundDouble 20 = 20 \<and> roundDouble 25 = 25"
  by (simp add: roundDouble_whole isWhole_def)

lemma isWhole_of_int: "isWhole (of_int i)"
  by (simp add: isWhole_def)

lemma isWhole_add: "isWhole x \<Longrightarrow> isWhole y \<Longrightarrow> isWhole (x + y)"
  by (metis isWhole_def of_int_add of_int_floor_cancel)

lemma isWhole_mult: "isWhole x \<Longrightarrow> isWhole y \<Longrightarrow> isWhole (x * y)"
  by (metis isWhole_def of_int_mult of_int_floor_cancel)

text \<open>The rounding at work: 0.1, an integer beyond \<open>2\<^sup>5\<^sup>3\<close>, and 129.99.\<close>

lemma roundDouble_values:
  "roundDouble (1 / 10) = 3602879701896397 / 36028797018963968
   \<and> roundDouble 9007199254740993 = 9007199254740992
   \<and> roundDouble (12999 / 100) = 571702065978409 / 4398046511104"
  by code_simp

subsection \<open>Loading\<close>

lemma loadProducts_failed:
  "loadProducts (Inl e) s = s\<lparr>products := sampleProducts, showApiWarning := True, isLoading := False\<rparr>"
  by (simp add: loadProducts_def fetchProducts_def)

lemma loadProducts_null:
  "loadProducts (Inr None) s = s\<lparr>products := sampleProducts, showApiWarning := True, isLoading := False\<rparr>"
  by (simp add: loadProducts_def fetchProducts_def)

lemma loadProducts_empty:
  "loadProducts (Inr (Some [])) s = s\<lparr>products := sampleProducts, showApiWarning := True, isLoading := False\<rparr>"
  by (simp add: loadProducts_def fetchProducts_def)

lemma loadProducts_received:
  "loadProducts (Inr (Some (p # ps))) s = s\<lparr>products := p # ps, showApiWarning := False, isLoading := False\<rparr>"
  by (simp add: loadProducts_def fetchProducts_def)

lemma loadCategories_failed: "loadCategories (Inl e) s = s\<lparr>categories := sampleCategories\<rparr>"
  by (simp add: loadCategories_def fetchCategories_def)

lemma loadCategories_null: "loadCategories (Inr None) s = s\<lparr>categories := sampleCategories\<rparr>"
  by (simp add: loadCategories_def fetchCategories_def)

lemma loadCategories_empty: "loadCategories (Inr (Some [])) s = s\<lparr>categories := sampleCategories\<rparr>"
  by (simp add: loadCategories_def fetchCategories_def)

lemma loadCategories_received: "loadCategories (Inr (Some (c # cs))) s = s\<lparr>categories := c # cs\<rparr>"
  by (simp add: loadCategories_def fetchCategories_def)

lemma loadCategories_warning: "showApiWarning (loadCategories r s) = showApiWarning s"
  by (simp add: loadCategories_def fetchCategories_def split: sum.splits option.splits)

lemma loadProducts_nonempty: "products (loadProducts r s) \<noteq> []"
proof (cases r)
  case (Inl e)
  then show ?thesis
    by (simp add: loadProducts_failed sampleProducts_def)
next
  case (Inr response)
  show ?thesis
  proof (cases response)
    case None
    with Inr show ?thesis
      by (simp add: loadProducts_null sampleProducts_def)
  next
    case (Some ps)
    with Inr show ?thesis
      by (cases ps) (simp_all add: loadProducts_empty loadProducts_received sampleProducts_def)
  qed
qed

text \<open>
  C7. When the products request fails (whatever the failure: no connection, an error
  status, a body that cannot be parsed), or brings no body or an empty list,
  \<^verbatim>\<open>loadProducts\<close> ends with the product collection equal to the sample products and
  the warning flag true (a list that is not empty is stored as it is, with the flag
  false). When the categories request fails or brings nothing, \<^verbatim>\<open>loadCategories\<close> stores
  the sample categories, and it never changes the warning flag.
\<close>

theorem load_fallback:
  "loadProducts (Inl e) s
     = s\<lparr>products := sampleProducts, showApiWarning := True, isLoading := False\<rparr>
   \<and> loadProducts (Inr None) s
     = s\<lparr>products := sampleProducts, showApiWarning := True, isLoading := False\<rparr>
   \<and> loadProducts (Inr (Some [])) s
     = s\<lparr>products := sampleProducts, showApiWarning := True, isLoading := False\<rparr>
   \<and> products (loadProducts (Inl e) s) = sampleProducts
   \<and> showApiWarning (loadProducts (Inl e) s) = True
   \<and> products (loadProducts (Inr (Some [])) s) = sampleProducts
   \<and> showApiWarning (loadProducts (Inr (Some [])) s) = True
   \<and> loadProducts (Inr (Some (p # ps))) s
     = s\<lparr>products := p # ps, showApiWarning := False, isLoading := False\<rparr>
   \<and> loadCategories (Inl e') s = s\<lparr>categories := sampleCategories\<rparr>
   \<and> loadCategories (Inr None) s = s\<lparr>categories := sampleCategories\<rparr>
   \<and> loadCategories (Inr (Some [])) s = s\<lparr>categories := sampleCategories\<rparr>
   \<and> categories (loadCategories (Inl e') s) = sampleCategories
   \<and> showApiWarning (loadCategories r s) = showApiWarning s"
  by (simp add: loadProducts_failed loadProducts_null loadProducts_empty loadProducts_received
      loadCategories_failed loadCategories_null loadCategories_empty loadCategories_warning)

lemma load_fallback_example:
  "showApiWarning (loadCategories (Inl NetworkFailure) initialApp) = False
   \<and> categories (loadCategories (Inl (ErrorStatus 500)) initialApp) = sampleCategories
   \<and> showApiWarning (loadProducts (Inl MalformedPayload) initialApp) = True
   \<and> products (loadProducts (Inl (ErrorStatus 404)) initialApp) = sampleProducts
   \<and> isLoading (loadProducts (Inl NetworkFailure) initialApp) = False"
  by (simp add: loadProducts_failed loadCategories_failed initialApp_def)

subsection \<open>The featured product\<close>

lemma random_index_in_range:
  assumes "0 \<le> u" and "u < 1" and "0 < n"
  shows "0 \<le> \<lfloor>u * of_nat n\<rfloor> \<and> \<lfloor>u * of_nat n\<rfloor> < int n"
proof
  have "0 \<le> u * of_nat n"
    using assms(1) by simp
  then show "0 \<le> \<lfloor>u * of_nat n\<rfloor>"
    by simp
  have "u * of_nat n < 1 * of_nat n"
    using assms(2,3) by (intro mult_strict_right_mono) simp_all
  then show "\<lfloor>u * of_nat n\<rfloor> < int n"
    by (simp add: floor_less_iff)
qed

lemma at_index_in_range:
  "0 \<le> i \<Longrightarrow> i < int (length xs) \<Longrightarrow> at_index xs i = Some (xs ! nat i) \<and> xs ! nat i \<in> set xs"
  by (simp add: at_index_def)



text \<open>
  After start-up the catalog is never empty, so a featured product is always there and
  is one of the catalog.
\<close>

lemma ngOnInit_featured:
  assumes "0 \<le> u" and "u < 1"
  shows "\<exists>p. featuredProduct (ngOnInit rp rc u s) = Some p \<and> p \<in> set (products (ngOnInit rp rc u s))"
proof -
  let ?s = "loadCategories rc (loadProducts rp s)"
  have p: "products ?s = products (loadProducts rp s)"
    by (simp add: loadCategories_def fetchCategories_def split: sum.splits option.splits)
  then have ne: "products ?s \<noteq> []"
    by (simp add: loadProducts_nonempty)
  let ?i = "\<lfloor>u * of_nat (length (products ?s))\<rfloor>"
  have "0 \<le> ?i \<and> ?i < int (length (products ?s))"
    using assms ne by (intro random_index_in_range) simp_all
  then have "at_index (products ?s) ?i = Some (products ?s ! nat ?i)"
    and "products ?s ! nat ?i \<in> set (products ?s)"
    using at_index_in_range [of ?i "products ?s"] by simp_all
  then show ?thesis
    using ne by (simp add: ngOnInit_def loadFeaturedProduct_def Let_def)
qed

subsection \<open>The star rating\<close>

lemma appendStars_replicate:
  "appendStars i n marker stars = stars @ concat (replicate (nat (n - i)) marker)"
proof (induction i n marker stars rule: appendStars.induct)
  case (1 i n marker stars)
  show ?case
  proof (cases "i < n")
    case True
    then have "nat (n - i) = Suc (nat (n - (i + 1)))"
      by simp
    with True 1 show ?thesis
      by (subst appendStars.simps) simp
  next
    case False
    then show ?thesis
      by (subst appendStars.simps) simp
  qed
qed

lemma remainder_one_nonneg: "0 \<le> r \<Longrightarrow> remainder r 1 = frac r"
  by (simp add: remainder_def frac_def Let_def)

lemma remainder_one_neg: "r < 0 \<Longrightarrow> remainder r 1 \<le> 0"
  by (simp add: remainder_def Let_def)

lemma generateStars_render:
  "generateStars r =
     concat (replicate (nat \<lfloor>r\<rfloor>) fullStar)
     @ (if 1 / 2 \<le> remainder r 1 then halfStar else [])
     @ concat (replicate (nat (5 - \<lfloor>r\<rfloor> - (if 1 / 2 \<le> remainder r 1 then 1 else 0))) emptyStar)"
  by (simp add: generateStars_def Let_def appendStars_replicate)

lemma markerCounts_Nil: "markerCounts [] = Some (0, 0, 0)"
  by (subst markerCounts.simps) simp

lemma markerCounts_full:
  "markerCounts (fullStar @ str) = map_option (\<lambda>(f, h, e). (f + 1, h, e)) (markerCounts str)"
proof -
  have ne: "fullStar \<noteq> []"
    by (simp add: fullStar_def)
  show ?thesis
    by (subst markerCounts.simps) (simp add: ne)
qed

lemma half_not_full: "\<not> prefix fullStar (halfStar @ str)"
  by (simp add: fullStar_def halfStar_def)

lemma empty_not_full: "\<not> prefix fullStar (emptyStar @ str)"
  by (simp add: fullStar_def emptyStar_def)

lemma empty_not_half: "\<not> prefix halfStar (emptyStar @ str)"
  by (simp add: halfStar_def emptyStar_def)

lemma markerCounts_half:
  "markerCounts (halfStar @ str) = map_option (\<lambda>(f, h, e). (f, h + 1, e)) (markerCounts str)"
proof -
  have ne: "halfStar \<noteq> []"
    by (simp add: halfStar_def)
  show ?thesis
    by (subst markerCounts.simps) (simp add: ne half_not_full)
qed

lemma markerCounts_empty:
  "markerCounts (emptyStar @ str) = map_option (\<lambda>(f, h, e). (f, h, e + 1)) (markerCounts str)"
proof -
  have ne: "emptyStar \<noteq> []"
    by (simp add: emptyStar_def)
  show ?thesis
    by (subst markerCounts.simps) (simp add: ne empty_not_full empty_not_half)
qed

lemma markerCounts_fulls:
  "markerCounts (concat (replicate n fullStar) @ str)
     = map_option (\<lambda>(f, h, e). (f + n, h, e)) (markerCounts str)"
proof (induction n)
  case 0
  show ?case by (simp add: option.map_ident case_prod_unfold)
next
  case (Suc n)
  then show ?case
    by (simp add: markerCounts_full option.map_comp comp_def case_prod_unfold)
qed

lemma markerCounts_empties:
  "markerCounts (concat (replicate n emptyStar)) = Some (0, 0, n)"
proof (induction n)
  case 0
  show ?case by (simp add: markerCounts_Nil)
next
  case (Suc n)
  then show ?case
    by (simp add: markerCounts_empty)
qed

lemma markerCounts_generateStars:
  "markerCounts (generateStars r) =
     Some (nat \<lfloor>r\<rfloor>,
           if 1 / 2 \<le> remainder r 1 then 1 else 0,
           nat (5 - \<lfloor>r\<rfloor> - (if 1 / 2 \<le> remainder r 1 then 1 else 0)))"
  unfolding generateStars_render
  by (simp add: markerCounts_fulls markerCounts_half markerCounts_empties)

lemma half_below_five:
  fixes r :: rat
  assumes "0 \<le> r" and "r \<le> 5" and "1 / 2 \<le> frac r"
  shows "\<lfloor>r\<rfloor> \<le> 4"
proof -
  have "r \<noteq> 5"
  proof
    assume "r = 5"
    then have "frac r = 0"
      by simp
    with assms(3) show False
      by simp
  qed
  then have "r < 5"
    using assms(2) by simp
  then have "\<lfloor>r\<rfloor> < 5"
    by (simp add: floor_less_iff)
  then show ?thesis by simp
qed

text \<open>
  C8, for the ratings of the data model. For every rating from 0 to 5 the rendering is
  made of markers only: as many full markers as the floor of the rating, one half marker
  if and only if the fractional part of the rating is 1/2 at least, and empty markers for
  the rest, five markers in all. The rating 3.5 gives 3 full, 1 half and 1 empty marker,
  the rating 5 gives 5 full markers and no other.
\<close>

theorem generateStars_markers:
  "(0 \<le> r \<and> r \<le> 5 \<longrightarrow>
      markerCounts (generateStars r) =
        Some (nat \<lfloor>r\<rfloor>,
              if 1 / 2 \<le> frac r then 1 else 0,
              5 - nat \<lfloor>r\<rfloor> - (if 1 / 2 \<le> frac r then 1 else 0))
      \<and> nat \<lfloor>r\<rfloor> + (if 1 / 2 \<le> frac r then 1 else 0)
          + (5 - nat \<lfloor>r\<rfloor> - (if 1 / 2 \<le> frac r then 1 else 0)) = 5)
   \<and> markerCounts (generateStars (7 / 2)) = Some (3, 1, 1)
   \<and> markerCounts (generateStars 5) = Some (5, 0, 0)"
proof (intro conjI impI)
  assume a: "0 \<le> r \<and> r \<le> 5"
  then have rem: "remainder r 1 = frac r"
    by (simp add: remainder_one_nonneg)
  have f0: "0 \<le> \<lfloor>r\<rfloor>" and f5: "\<lfloor>r\<rfloor> \<le> 5"
    using a by (simp_all add: floor_le_iff le_floor_iff)
  obtain n where n: "\<lfloor>r\<rfloor> = int n"
    using f0 by (rule nonneg_int_cases)
  have n5: "n \<le> 5"
    using f5 unfolding n by simp
  have h: "1 / 2 \<le> frac r \<Longrightarrow> n \<le> 4"
    using a half_below_five [of r] unfolding n by simp
  have e: "nat (5 - int n - (if 1 / 2 \<le> frac r then 1 else 0))
      = 5 - n - (if 1 / 2 \<le> frac r then 1 else 0)"
    by (cases "1 / 2 \<le> frac r") simp_all
  show "markerCounts (generateStars r) =
        Some (nat \<lfloor>r\<rfloor>,
              if 1 / 2 \<le> frac r then 1 else 0,
              5 - nat \<lfloor>r\<rfloor> - (if 1 / 2 \<le> frac r then 1 else 0))"
    unfolding markerCounts_generateStars rem n e by simp
  show "nat \<lfloor>r\<rfloor> + (if 1 / 2 \<le> frac r then 1 else 0)
          + (5 - nat \<lfloor>r\<rfloor> - (if 1 / 2 \<le> frac r then 1 else 0)) = 5"
    unfolding n using n5 h by (cases "1 / 2 \<le> frac r") simp_all
next
  show "markerCounts (generateStars (7 / 2)) = Some (3, 1, 1)"
    by code_simp
  show "markerCounts (generateStars 5) = Some (5, 0, 0)"
    by code_simp
qed

theorem generateStars_markers_witness:
  "markerCounts (generateStars (9 / 2)) = Some (4, 1, 0)
   \<and> markerCounts (generateStars (12 / 5)) = Some (2, 0, 3)
   \<and> markerCounts (generateStars 0) = Some (0, 0, 5)"
proof -
  have "(0::rat) \<le> 9 / 2 \<and> (9 / 2 :: rat) \<le> 5"
    by simp
  then have "markerCounts (generateStars (9 / 2)) =
        Some (nat \<lfloor>9 / 2 :: rat\<rfloor>,
              if 1 / 2 \<le> frac (9 / 2 :: rat) then 1 else 0,
              5 - nat \<lfloor>9 / 2 :: rat\<rfloor> - (if 1 / 2 \<le> frac (9 / 2 :: rat) then 1 else 0))"
    using generateStars_markers [of "9 / 2"] by blast
  moreover have "\<lfloor>9 / 2 :: rat\<rfloor> = 4" and "frac (9 / 2 :: rat) = 1 / 2"
    by code_simp+
  ultimately have 1: "markerCounts (generateStars (9 / 2)) = Some (4, 1, 0)"
    by simp
  have "(0::rat) \<le> 12 / 5 \<and> (12 / 5 :: rat) \<le> 5"
    by simp
  then have "markerCounts (generateStars (12 / 5)) =
        Some (nat \<lfloor>12 / 5 :: rat\<rfloor>,
              if 1 / 2 \<le> frac (12 / 5 :: rat) then 1 else 0,
              5 - nat \<lfloor>12 / 5 :: rat\<rfloor> - (if 1 / 2 \<le> frac (12 / 5 :: rat) then 1 else 0))"
    using generateStars_markers [of "12 / 5"] by blast
  moreover have "\<lfloor>12 / 5 :: rat\<rfloor> = 2" and "frac (12 / 5 :: rat) = 2 / 5"
    by code_simp+
  ultimately have 2: "markerCounts (generateStars (12 / 5)) = Some (2, 0, 3)"
    by simp
  have "(0::rat) \<le> 0 \<and> (0::rat) \<le> 5"
    by simp
  then have "markerCounts (generateStars 0) =
        Some (nat \<lfloor>0 :: rat\<rfloor>,
              if 1 / 2 \<le> frac (0 :: rat) then 1 else 0,
              5 - nat \<lfloor>0 :: rat\<rfloor> - (if 1 / 2 \<le> frac (0 :: rat) then 1 else 0))"
    using generateStars_markers [of 0] by blast
  then have 3: "markerCounts (generateStars 0) = Some (0, 0, 5)"
    by simp
  show ?thesis
    using 1 2 3 by blast
qed

text \<open>
  Outside that range the rendering does not have five markers: the rating 6 gives six
  full markers, 5.5 gives five full markers and a half one, and -0.5 gives six empty
  markers and no half one.
\<close>

theorem generateStars_markers_counterexample:
  "markerCounts (generateStars 6) = Some (6, 0, 0)
   \<and> markerCounts (generateStars (11 / 2)) = Some (5, 1, 0)
   \<and> markerCounts (generateStars (- (1 / 2))) = Some (0, 0, 6)"
  by code_simp

subsection \<open>The cart\<close>

lemma find_id_None: "find (\<lambda>x. f x = k) xs = None \<longleftrightarrow> k \<notin> f ` set xs"
  by (auto simp: find_None_iff)

lemma find_id_Some: "find (\<lambda>x. f x = k) xs = Some y \<Longrightarrow> y \<in> set xs \<and> f y = k"
  by (induction xs) (auto split: if_splits)

lemma find_id_ex: "k \<in> f ` set xs \<Longrightarrow> \<exists>y. find (\<lambda>x. f x = k) xs = Some y"
  using find_id_None [of f k xs] by (cases "find (\<lambda>x. f x = k) xs") auto

lemma newItem_id: "id' (Product.extend product (CartItem.fields q)) = id' product"
  by (simp add: Product.defs CartItem.defs)

lemma newItem_quantity: "quantity (Product.extend product (CartItem.fields q)) = q"
  by (simp add: Product.defs CartItem.defs)

lemma newItem_update:
  "(Product.extend product (CartItem.fields q))\<lparr>quantity := q'\<rparr>
     = Product.extend product (CartItem.fields q')"
  by (simp add: Product.defs CartItem.defs)

lemma map_other_ids:
  "k \<notin> id' ` set c \<Longrightarrow> map (\<lambda>item. if id' item = k then g item else item) c = c"
  by (induction c) auto

lemma addToCart_absent: "pid \<notin> id' ` set (products s) \<Longrightarrow> addToCart pid s = s"
  by (simp add: addToCart_def find_id_None [symmetric])

lemma addToCart_existing:
  assumes "pid \<in> id' ` set (products s)" and "pid \<in> id' ` set (cart s)"
  shows "addToCart pid s =
    s\<lparr>cart := map (\<lambda>item. if id' item = pid then item\<lparr>quantity := plusNumber (quantity item) 1\<rparr>
                            else item) (cart s)\<rparr>"
proof -
  obtain product where "find (\<lambda>p. id' p = pid) (products s) = Some product"
    using find_id_ex [OF assms(1)] by blast
  moreover obtain existingItem where "find (\<lambda>item. id' item = pid) (cart s) = Some existingItem"
    using find_id_ex [OF assms(2)] by blast
  ultimately show ?thesis
    by (simp add: addToCart_def)
qed

lemma addToCart_new:
  assumes "find (\<lambda>p. id' p = pid) (products s) = Some product" and "pid \<notin> id' ` set (cart s)"
  shows "addToCart pid s = s\<lparr>cart := cart s @ [Product.extend product (CartItem.fields 1)]\<rparr>"
  using assms by (simp add: addToCart_def find_id_None [symmetric])

lemma addToCart_twice:
  assumes f: "find (\<lambda>p. id' p = pid) (products s) = Some product"
    and n: "pid \<notin> id' ` set (cart s)"
  shows "addToCart pid (addToCart pid s)
           = s\<lparr>cart := cart s @ [Product.extend product (CartItem.fields 2)]\<rparr>"
proof -
  let ?s1 = "s\<lparr>cart := cart s @ [Product.extend product (CartItem.fields 1)]\<rparr>"
  have idp: "id' product = pid" using find_id_Some [OF f] by simp
  have 1: "addToCart pid s = ?s1" by (rule addToCart_new [OF f n])
  have "pid \<in> id' ` set (products ?s1)" using find_id_Some [OF f] by force
  moreover have "pid \<in> id' ` set (cart ?s1)" by (simp add: newItem_id idp)
  ultimately have "addToCart pid ?s1 =
    ?s1\<lparr>cart := map (\<lambda>item. if id' item = pid then item\<lparr>quantity := plusNumber (quantity item) 1\<rparr>
                            else item) (cart ?s1)\<rparr>"
    by (rule addToCart_existing)
  then show ?thesis
    unfolding 1 using n
    by (simp add: map_other_ids newItem_id idp newItem_update newItem_quantity plusNumber_def
        roundDouble_small)
qed

lemma plus_one_exact: "isSafeInteger q \<Longrightarrow> plusNumber q 1 = q + 1"
proof -
  assume a: "isSafeInteger q"
  then have "isWhole (q + 1)"
    using isWhole_add [of q 1] by (simp add: isSafeInteger_def isWhole_def)
  moreover have "\<bar>q + 1\<bar> \<le> 9007199254740992"
  proof -
    have w: "of_int \<lfloor>q\<rfloor> = q" and b: "\<bar>q\<bar> < 9007199254740992"
      using a by (simp_all add: isSafeInteger_def isWhole_def)
    have "\<bar>(of_int \<lfloor>q\<rfloor> :: rat)\<bar> < of_int 9007199254740992"
      unfolding w using b by simp
    then have "(of_int \<bar>\<lfloor>q\<rfloor>\<bar> :: rat) < of_int 9007199254740992"
      by simp
    then have "\<bar>\<lfloor>q\<rfloor>\<bar> < 9007199254740992"
      by (simp only: of_int_less_iff)
    then have "\<bar>\<lfloor>q\<rfloor> + 1\<bar> \<le> 9007199254740992"
      by simp
    then have "(of_int \<bar>\<lfloor>q\<rfloor> + 1\<bar> :: rat) \<le> of_int 9007199254740992"
      by (simp only: of_int_le_iff)
    then show ?thesis
      using w by (metis of_int_1 of_int_abs of_int_add of_int_numeral)
  qed
  ultimately show ?thesis
    by (simp add: plusNumber_def roundDouble_whole)
qed

lemma map_plus_one_exact:
  "(\<forall>item \<in> set c. id' item = pid \<longrightarrow> isSafeInteger (quantity item)) \<Longrightarrow>
   map (\<lambda>item. if id' item = pid then item\<lparr>quantity := plusNumber (quantity item) 1\<rparr>
                  else item) c
   = map (\<lambda>item. if id' item = pid then item\<lparr>quantity := quantity item + 1\<rparr> else item) c"
  by (rule map_cong) (simp_all add: plus_one_exact)

text \<open>
  C2, with the bound that double arithmetic puts on it. \<^verbatim>\<open>addToCart(productId)\<close> changes
  nothing when no catalog product has that id. When the catalog has the id and a cart
  entry with it exists, the entry's quantity becomes the double nearest to the quantity
  plus 1 and nothing else changes; that is the quantity plus 1 whenever the quantity is
  a whole number below \<open>2\<^sup>5\<^sup>3\<close> in size. Otherwise a new entry for the catalog's product,
  with quantity 1, is appended at the end, the existing entries staying in their order; a
  second call then leaves exactly one entry with that id, with quantity 2.
\<close>

theorem addToCart_cases:
  "(pid \<notin> id' ` set (products s) \<longrightarrow> addToCart pid s = s)
   \<and> (pid \<in> id' ` set (products s) \<and> pid \<in> id' ` set (cart s) \<longrightarrow>
        addToCart pid s =
          s\<lparr>cart := map (\<lambda>item. if id' item = pid
                                  then item\<lparr>quantity := plusNumber (quantity item) 1\<rparr>
                                  else item) (cart s)\<rparr>
        \<and> ((\<forall>item \<in> set (cart s). id' item = pid \<longrightarrow> isSafeInteger (quantity item)) \<longrightarrow>
             addToCart pid s =
               s\<lparr>cart := map (\<lambda>item. if id' item = pid
                                       then item\<lparr>quantity := quantity item + 1\<rparr>
                                       else item) (cart s)\<rparr>))
   \<and> (pid \<in> id' ` set (products s) \<and> pid \<notin> id' ` set (cart s) \<longrightarrow>
        (\<exists>product. find (\<lambda>p. id' p = pid) (products s) = Some product
           \<and> product \<in> set (products s) \<and> id' product = pid
           \<and> addToCart pid s
               = s\<lparr>cart := cart s @ [Product.extend product (CartItem.fields 1)]\<rparr>
           \<and> addToCart pid (addToCart pid s)
               = s\<lparr>cart := cart s @ [Product.extend product (CartItem.fields 2)]\<rparr>
           \<and> filter (\<lambda>item. id' item = pid) (cart (addToCart pid (addToCart pid s)))
               = [Product.extend product (CartItem.fields 2)]))"
proof (intro conjI impI)
  assume "pid \<notin> id' ` set (products s)"
  then show "addToCart pid s = s" by (rule addToCart_absent)
next
  assume "pid \<in> id' ` set (products s) \<and> pid \<in> id' ` set (cart s)"
  then show e: "addToCart pid s =
          s\<lparr>cart := map (\<lambda>item. if id' item = pid
                                  then item\<lparr>quantity := plusNumber (quantity item) 1\<rparr>
                                  else item) (cart s)\<rparr>"
    by (simp add: addToCart_existing)
  assume "\<forall>item \<in> set (cart s). id' item = pid \<longrightarrow> isSafeInteger (quantity item)"
  then show "addToCart pid s =
               s\<lparr>cart := map (\<lambda>item. if id' item = pid
                                       then item\<lparr>quantity := quantity item + 1\<rparr>
                                       else item) (cart s)\<rparr>"
    unfolding e by (simp only: map_plus_one_exact)
next
  assume a: "pid \<in> id' ` set (products s) \<and> pid \<notin> id' ` set (cart s)"
  then obtain product where f: "find (\<lambda>p. id' p = pid) (products s) = Some product"
    using find_id_ex [of pid id' "products s"] by blast
  have n: "pid \<notin> id' ` set (cart s)" using a by simp
  have nf: "filter (\<lambda>item. id' item = pid) (cart s) = []"
    using n by (auto simp: filter_empty_conv)
  have m: "product \<in> set (products s) \<and> id' product = pid"
    using find_id_Some [OF f] .
  have "filter (\<lambda>item. id' item = pid) (cart (addToCart pid (addToCart pid s)))
               = [Product.extend product (CartItem.fields 2)]"
    by (simp add: addToCart_twice [OF f n] nf newItem_id m)
  then show "\<exists>product. find (\<lambda>p. id' p = pid) (products s) = Some product
           \<and> product \<in> set (products s) \<and> id' product = pid
           \<and> addToCart pid s
               = s\<lparr>cart := cart s @ [Product.extend product (CartItem.fields 1)]\<rparr>
           \<and> addToCart pid (addToCart pid s)
               = s\<lparr>cart := cart s @ [Product.extend product (CartItem.fields 2)]\<rparr>
           \<and> filter (\<lambda>item. id' item = pid) (cart (addToCart pid (addToCart pid s)))
               = [Product.extend product (CartItem.fields 2)]"
    using f m addToCart_new [OF f n] addToCart_twice [OF f n] by simp
qed

theorem addToCart_cases_witness:
  "addToCart 2 (initialApp\<lparr>products := sampleProducts\<rparr>) = initialApp\<lparr>products := sampleProducts\<rparr>
   \<and> cart (addToCart 1 (initialApp\<lparr>products := sampleProducts\<rparr>))
        = [Product.extend (hd sampleProducts) (CartItem.fields 1)]
   \<and> cart (addToCart 1 (addToCart 1 (initialApp\<lparr>products := sampleProducts\<rparr>)))
        = [Product.extend (hd sampleProducts) (CartItem.fields 2)]
   \<and> cart (addToCart 1 (addToCart 1 (addToCart 1 (initialApp\<lparr>products := sampleProducts\<rparr>))))
        = [Product.extend (hd sampleProducts) (CartItem.fields 3)]"
proof -
  let ?s0 = "initialApp\<lparr>products := sampleProducts\<rparr>"
  let ?item = "\<lambda>q. Product.extend (hd sampleProducts) (CartItem.fields q)"
  let ?s2 = "?s0\<lparr>cart := [?item 2]\<rparr>"
  have a: "2 \<notin> id' ` set (products ?s0)"
    by (simp add: initialApp_def sampleProducts_def)
  have b: "1 \<in> id' ` set (products ?s0) \<and> 1 \<notin> id' ` set (cart ?s0)"
    by (simp add: initialApp_def sampleProducts_def)
  have f: "find (\<lambda>p. id' p = 1) (products ?s0) = Some (hd sampleProducts)"
    by (simp add: initialApp_def sampleProducts_def)
  have c: "1 \<in> id' ` set (products ?s2) \<and> 1 \<in> id' ` set (cart ?s2)"
    by (simp add: initialApp_def sampleProducts_def Product.defs CartItem.defs)
  have d: "\<forall>item \<in> set (cart ?s2). id' item = 1 \<longrightarrow> isSafeInteger (quantity item)"
    by (simp add: newItem_quantity isSafeInteger_def isWhole_def)
  have e: "cart ?s0 = []"
    by (simp add: initialApp_def)
  have 1: "addToCart 2 ?s0 = ?s0"
    using addToCart_cases [of 2 ?s0] a by blast
  have "addToCart 1 ?s0 = ?s0\<lparr>cart := cart ?s0 @ [?item 1]\<rparr>
    \<and> addToCart 1 (addToCart 1 ?s0) = ?s0\<lparr>cart := cart ?s0 @ [?item 2]\<rparr>"
    using addToCart_cases [of 1 ?s0] b f by auto
  then have 2: "addToCart 1 ?s0 = ?s0\<lparr>cart := [?item 1]\<rparr>"
    and 3: "addToCart 1 (addToCart 1 ?s0) = ?s2"
    unfolding e append_Nil by blast+
  have "addToCart 1 ?s2 = ?s2\<lparr>cart := map (\<lambda>item. if id' item = 1
                                  then item\<lparr>quantity := quantity item + 1\<rparr>
                                  else item) (cart ?s2)\<rparr>"
    using addToCart_cases [of 1 ?s2] c d by blast
  also have "\<dots> = ?s0\<lparr>cart := [?item 3]\<rparr>"
    by (simp add: sampleProducts_def Product.defs CartItem.defs)
  finally have 4: "addToCart 1 ?s2 = ?s0\<lparr>cart := [?item 3]\<rparr>" .
  have "cart (addToCart 1 ?s0) = [?item 1]"
    by (subst 2) simp
  moreover have "cart (addToCart 1 (addToCart 1 ?s0)) = [?item 2]"
    by (subst 3) simp
  moreover have "cart (addToCart 1 (addToCart 1 (addToCart 1 ?s0))) = [?item 3]"
    by (subst 3, subst 4) simp
  ultimately show ?thesis
    using 1 by blast
qed

text \<open>
  At the quantity \<open>2\<^sup>5\<^sup>3\<close> (9007199254740992) the call does not add 1: the double nearest
  to \<open>2\<^sup>5\<^sup>3 + 1\<close> is \<open>2\<^sup>5\<^sup>3\<close>, and the cart stays as it is.
\<close>

theorem addToCart_cases_counterexample:
  "map quantity (cart (addToCart 1 (initialApp\<lparr>products := sampleProducts,
      cart := [Product.extend (hd sampleProducts) (CartItem.fields 9007199254740992)]\<rparr>)))
     = [9007199254740992]
   \<and> addToCart 1 (initialApp\<lparr>products := sampleProducts,
      cart := [Product.extend (hd sampleProducts) (CartItem.fields 9007199254740992)]\<rparr>)
     = initialApp\<lparr>products := sampleProducts,
      cart := [Product.extend (hd sampleProducts) (CartItem.fields 9007199254740992)]\<rparr>"
  by code_simp

lemma map_quantity_ids:
  "map id' (map (\<lambda>item. if id' item = k then item\<lparr>quantity := g item\<rparr> else item) c)
     = map id' c"
  by (induction c) auto

lemma set_quantity_exact:
  assumes "y \<in> set (map (\<lambda>item. if id' item = k then item\<lparr>quantity := q\<rparr> else item) c)"
    and "id' y = k"
  shows "quantity y = q"
proof -
  from assms(1) obtain x where x: "y = (if id' x = k then x\<lparr>quantity := q\<rparr> else x)"
    by (auto simp only: set_map image_iff)
  show ?thesis
  proof (cases "id' x = k")
    case True
    with x show ?thesis by simp
  next
    case False
    with x assms(2) show ?thesis by simp
  qed
qed

lemma update_nonpositive:
  "qty \<le> 0 \<Longrightarrow> updateCartItemQuantity pid qty s = removeFromCart pid s"
  by (simp add: updateCartItemQuantity_def)

lemma update_positive:
  "0 < qty \<Longrightarrow> updateCartItemQuantity pid qty s
     = s\<lparr>cart := map (\<lambda>item. if id' item = pid then item\<lparr>quantity := qty\<rparr> else item)
                      (cart s)\<rparr>"
  by (simp add: updateCartItemQuantity_def)

lemma cart_removeFromCart:
  "cart (removeFromCart pid s) = filter (\<lambda>item. id' item \<noteq> pid) (cart s)"
  by (simp add: removeFromCart_def)

lemma removeFromCart_gone: "pid \<notin> id' ` set (cart (removeFromCart pid s))"
  by (auto simp add: removeFromCart_def)

text \<open>
  C3. \<^verbatim>\<open>updateCartItemQuantity(productId, quantity)\<close> with a quantity of 0 or less, such
  as 0 or -5, is \<^verbatim>\<open>removeFromCart(productId)\<close>: the entries with that id are dropped and
  no entry with that id is left. With a quantity above 0 the entries keep their ids and
  order, and an entry with that id gets exactly the given quantity, whatever its size.
\<close>

theorem updateCartItemQuantity_cases:
  "(qty \<le> 0 \<longrightarrow>
      updateCartItemQuantity pid qty s = removeFromCart pid s
      \<and> cart (updateCartItemQuantity pid qty s) = filter (\<lambda>item. id' item \<noteq> pid) (cart s)
      \<and> pid \<notin> id' ` set (cart (updateCartItemQuantity pid qty s)))
   \<and> (0 < qty \<longrightarrow>
      updateCartItemQuantity pid qty s
        = s\<lparr>cart := map (\<lambda>item. if id' item = pid then item\<lparr>quantity := qty\<rparr> else item)
                         (cart s)\<rparr>
      \<and> map id' (cart (updateCartItemQuantity pid qty s)) = map id' (cart s)
      \<and> (\<forall>item \<in> set (cart (updateCartItemQuantity pid qty s)).
            id' item = pid \<longrightarrow> quantity item = qty))
   \<and> updateCartItemQuantity pid 0 s = removeFromCart pid s
   \<and> updateCartItemQuantity pid (- 5) s = removeFromCart pid s"
proof (intro conjI impI)
  assume "qty \<le> 0"
  then have r: "updateCartItemQuantity pid qty s = removeFromCart pid s"
    by (rule update_nonpositive)
  show "updateCartItemQuantity pid qty s = removeFromCart pid s"
    by (rule r)
  show "cart (updateCartItemQuantity pid qty s) = filter (\<lambda>item. id' item \<noteq> pid) (cart s)"
    unfolding r by (rule cart_removeFromCart)
  show "pid \<notin> id' ` set (cart (updateCartItemQuantity pid qty s))"
    unfolding r by (rule removeFromCart_gone)
next
  assume "0 < qty"
  then have u: "updateCartItemQuantity pid qty s
        = s\<lparr>cart := map (\<lambda>item. if id' item = pid then item\<lparr>quantity := qty\<rparr> else item)
                         (cart s)\<rparr>"
    by (rule update_positive)
  show "updateCartItemQuantity pid qty s
        = s\<lparr>cart := map (\<lambda>item. if id' item = pid then item\<lparr>quantity := qty\<rparr> else item)
                         (cart s)\<rparr>"
    by (rule u)
  have c: "cart (updateCartItemQuantity pid qty s)
      = map (\<lambda>item. if id' item = pid then item\<lparr>quantity := qty\<rparr> else item) (cart s)"
    unfolding u by simp
  show "map id' (cart (updateCartItemQuantity pid qty s)) = map id' (cart s)"
    unfolding c by (rule map_quantity_ids)
  show "\<forall>item \<in> set (cart (updateCartItemQuantity pid qty s)).
            id' item = pid \<longrightarrow> quantity item = qty"
    unfolding c by (blast intro: set_quantity_exact)
next
  show "updateCartItemQuantity pid 0 s = removeFromCart pid s"
    by (simp add: update_nonpositive)
  show "updateCartItemQuantity pid (- 5) s = removeFromCart pid s"
    by (simp add: update_nonpositive)
qed

theorem updateCartItemQuantity_cases_witness:
  "cart (updateCartItemQuantity 1 0
           (initialApp\<lparr>cart := [Product.extend (hd sampleProducts) (CartItem.fields 2)]\<rparr>)) = []
   \<and> cart (updateCartItemQuantity 1 (- 5)
           (initialApp\<lparr>cart := [Product.extend (hd sampleProducts) (CartItem.fields 2)]\<rparr>)) = []
   \<and> cart (updateCartItemQuantity 1 7
           (initialApp\<lparr>cart := [Product.extend (hd sampleProducts) (CartItem.fields 2)]\<rparr>))
        = [Product.extend (hd sampleProducts) (CartItem.fields 7)]"
proof -
  let ?item = "\<lambda>q. Product.extend (hd sampleProducts) (CartItem.fields q)"
  let ?s = "initialApp\<lparr>cart := [?item 2]\<rparr>"
  have i: "id' (?item 2) = 1"
    by (simp add: sampleProducts_def newItem_id)
  have c: "cart ?s = [?item 2]"
    by simp
  have "(0::rat) \<le> 0"
    by simp
  then have "cart (updateCartItemQuantity 1 0 ?s) = filter (\<lambda>item. id' item \<noteq> 1) (cart ?s)"
    using updateCartItemQuantity_cases [of 0 1 ?s] by blast
  then have 1: "cart (updateCartItemQuantity 1 0 ?s) = []"
    unfolding c using i by simp
  have "(- 5::rat) \<le> 0"
    by simp
  then have "cart (updateCartItemQuantity 1 (- 5) ?s)
      = filter (\<lambda>item. id' item \<noteq> 1) (cart ?s)"
    using updateCartItemQuantity_cases [of "- 5" 1 ?s] by blast
  then have 2: "cart (updateCartItemQuantity 1 (- 5) ?s) = []"
    unfolding c using i by simp
  have "(0::rat) < 7"
    by simp
  then have "updateCartItemQuantity 1 7 ?s
      = ?s\<lparr>cart := map (\<lambda>item. if id' item = 1 then item\<lparr>quantity := 7\<rparr> else item)
                        (cart ?s)\<rparr>"
    using updateCartItemQuantity_cases [of 7 1 ?s] by blast
  then have 3: "cart (updateCartItemQuantity 1 7 ?s) = [?item 7]"
    unfolding c using i by (simp add: newItem_update)
  show ?thesis
    using 1 2 3 by blast
qed

text \<open>
  C10. \<^verbatim>\<open>updateCartItemQuantity(productId, quantity)\<close> with a quantity above 0, on a cart
  with no entry of that id, leaves the cart (and the whole state) as it was: it never
  inserts an entry.
\<close>

theorem updateCartItemQuantity_no_insert:
  "0 < qty \<and> pid \<notin> id' ` set (cart s) \<longrightarrow>
     updateCartItemQuantity pid qty s = s
     \<and> cart (updateCartItemQuantity pid qty s) = cart s"
proof
  assume a: "0 < qty \<and> pid \<notin> id' ` set (cart s)"
  then have "map (\<lambda>item. if id' item = pid then item\<lparr>quantity := qty\<rparr> else item) (cart s) = cart s"
    by (simp add: map_other_ids)
  then show "updateCartItemQuantity pid qty s = s
     \<and> cart (updateCartItemQuantity pid qty s) = cart s"
    using a by (simp add: updateCartItemQuantity_def)
qed

theorem updateCartItemQuantity_no_insert_witness:
  "updateCartItemQuantity 2 5
      (initialApp\<lparr>cart := [Product.extend (hd sampleProducts) (CartItem.fields 2)]\<rparr>)
     = initialApp\<lparr>cart := [Product.extend (hd sampleProducts) (CartItem.fields 2)]\<rparr>
   \<and> updateCartItemQuantity 1 3 initialApp = initialApp"
proof -
  let ?s = "initialApp\<lparr>cart := [Product.extend (hd sampleProducts) (CartItem.fields 2)]\<rparr>"
  have "(0::rat) < 5 \<and> 2 \<notin> id' ` set (cart ?s)"
    by (simp add: sampleProducts_def Product.defs CartItem.defs)
  then have "updateCartItemQuantity 2 5 ?s = ?s"
    using updateCartItemQuantity_no_insert [of 5 2 ?s] by blast
  moreover have "(0::rat) < 3 \<and> 1 \<notin> id' ` set (cart initialApp)"
    by (simp add: initialApp_def)
  then have "updateCartItemQuantity 1 3 initialApp = initialApp"
    using updateCartItemQuantity_no_insert [of 3 1 initialApp] by blast
  ultimately show ?thesis by blast
qed

subsection \<open>The invariant of the cart\<close>













lemma cartInvariant_initial: "cartInvariant (cart initialApp)"
  by (simp add: initialApp_def cartInvariant_def)

subsection \<open>The aggregates of the cart\<close>

lemma isWhole_sum_list:
  "(\<forall>x \<in> set xs. isWhole (f x * c)) \<Longrightarrow> isWhole ((\<Sum>x\<leftarrow>xs. f x) * c)"
proof (induction xs)
  case Nil
  show ?case by (simp add: isWhole_def)
next
  case (Cons x xs)
  then have "isWhole (f x * c + (\<Sum>x\<leftarrow>xs. f x) * c)"
    by (intro isWhole_add) simp_all
  then show ?case
    by (simp add: distrib_right)
qed

lemma foldl_plusNumber_exact:
  assumes "\<forall>x \<in> set xs. isWhole (f x * 2 ^ j)"
    and "(\<Sum>x\<leftarrow>xs. \<bar>f x\<bar>) * 2 ^ j \<le> 9007199254740992"
    and "j \<le> 1074"
  shows "foldl (\<lambda>total x. plusNumber total (f x)) 0 xs = (\<Sum>x\<leftarrow>xs. f x)"
  using assms(1,2)
proof (induction xs rule: rev_induct)
  case Nil
  show ?case by simp
next
  case (snoc x xs)
  have nonneg: "0 \<le> \<bar>f x\<bar> * 2 ^ j"
    by simp
  have "(\<Sum>x\<leftarrow>xs. \<bar>f x\<bar>) * 2 ^ j \<le> (\<Sum>x\<leftarrow>xs @ [x]. \<bar>f x\<bar>) * 2 ^ j"
    using nonneg by (simp add: distrib_right)
  then have b: "(\<Sum>x\<leftarrow>xs. \<bar>f x\<bar>) * 2 ^ j \<le> 9007199254740992"
    using snoc.prems(2) by linarith
  have ih: "foldl (\<lambda>total x. plusNumber total (f x)) 0 xs = (\<Sum>x\<leftarrow>xs. f x)"
    using snoc.IH snoc.prems(1) b by simp
  have w: "isWhole ((\<Sum>x\<leftarrow>xs @ [x]. f x) * 2 ^ j)"
    using snoc.prems(1) by (rule isWhole_sum_list)
  have "\<bar>\<Sum>x\<leftarrow>xs @ [x]. f x\<bar> \<le> (\<Sum>x\<leftarrow>xs @ [x]. \<bar>f x\<bar>)"
    using sum_list_abs [of "map f (xs @ [x])"] by (simp add: comp_def)
  then have "\<bar>\<Sum>x\<leftarrow>xs @ [x]. f x\<bar> * 2 ^ j \<le> (\<Sum>x\<leftarrow>xs @ [x]. \<bar>f x\<bar>) * 2 ^ j"
    by (simp only: mult_le_cancel_right) simp
  then have a: "\<bar>\<Sum>x\<leftarrow>xs @ [x]. f x\<bar> * 2 ^ j \<le> 9007199254740992"
    using snoc.prems(2) by linarith
  have "roundDouble (\<Sum>x\<leftarrow>xs @ [x]. f x) = (\<Sum>x\<leftarrow>xs @ [x]. f x)"
    using w a assms(3) by (rule roundDouble_dyadic)
  moreover have "foldl (\<lambda>total x. plusNumber total (f x)) 0 (xs @ [x])
      = plusNumber (foldl (\<lambda>total x. plusNumber total (f x)) 0 xs) (f x)"
    by simp
  ultimately show ?case
    unfolding ih by (simp add: plusNumber_def)
qed

lemma timesNumber_exact:
  assumes "isWhole (p * 2 ^ j)" and "isWhole q" and "\<bar>p * q\<bar> * 2 ^ j \<le> 9007199254740992"
    and "j \<le> 1074"
  shows "timesNumber p q = p * q"
proof -
  have "isWhole (p * 2 ^ j * q)"
    using assms(1,2) by (rule isWhole_mult)
  then have "isWhole (p * q * 2 ^ j)"
    by (simp add: ac_simps)
  then show ?thesis
    unfolding timesNumber_def using assms(3,4) by (rule roundDouble_dyadic)
qed

lemma member_le_sum_list_abs:
  "x \<in> set xs \<Longrightarrow> \<bar>f x\<bar> \<le> (\<Sum>x\<leftarrow>xs. \<bar>f x :: rat\<bar>)"
proof (induction xs)
  case Nil
  then show ?case by simp
next
  case (Cons y ys)
  have "0 \<le> (\<Sum>x\<leftarrow>ys. \<bar>f x\<bar>)"
    by (rule sum_list_nonneg) auto
  moreover have "0 \<le> \<bar>f y\<bar>"
    by simp
  ultimately show ?case
    using Cons by (cases "x = y") (simp_all add: add_increasing add_increasing2)
qed

lemma cartCount_exact:
  assumes "\<forall>item \<in> set (cart s). isWhole (quantity item)"
    and "(\<Sum>item\<leftarrow>cart s. \<bar>quantity item\<bar>) \<le> 9007199254740992"
  shows "cartCount s = (\<Sum>item\<leftarrow>cart s. quantity item)"
  unfolding cartCount_def
  using foldl_plusNumber_exact [of "cart s" quantity 0] assms by simp

lemma cartTotal_exact:
  assumes w: "\<forall>item \<in> set (cart s). isWhole (quantity item) \<and> isWhole (price item * 2 ^ j)"
    and b: "(\<Sum>item\<leftarrow>cart s. \<bar>price item * quantity item\<bar>) * 2 ^ j \<le> 9007199254740992"
    and j: "j \<le> 1074"
  shows "cartTotal s = (\<Sum>item\<leftarrow>cart s. price item * quantity item)"
proof -
  have t: "timesNumber (price item) (quantity item) = price item * quantity item"
    if "item \<in> set (cart s)" for item
  proof -
    have "\<bar>price item * quantity item\<bar> \<le> (\<Sum>item\<leftarrow>cart s. \<bar>price item * quantity item\<bar>)"
      using that by (rule member_le_sum_list_abs)
    then have "\<bar>price item * quantity item\<bar> * 2 ^ j
        \<le> (\<Sum>item\<leftarrow>cart s. \<bar>price item * quantity item\<bar>) * 2 ^ j"
      by (simp only: mult_le_cancel_right) simp
    then have "\<bar>price item * quantity item\<bar> * 2 ^ j \<le> 9007199254740992"
      using b by linarith
    then show ?thesis
      using w that j by (intro timesNumber_exact [of _ j]) simp_all
  qed
  have "cartTotal s
      = foldl (\<lambda>total item. plusNumber total (price item * quantity item)) 0 (cart s)"
    unfolding cartTotal_def by (rule foldl_cong) (simp_all add: t)
  also have "\<dots> = (\<Sum>item\<leftarrow>cart s. price item * quantity item)"
  proof (rule foldl_plusNumber_exact [of _ _ j])
    show "\<forall>item \<in> set (cart s). isWhole (price item * quantity item * 2 ^ j)"
    proof
      fix item
      assume "item \<in> set (cart s)"
      then have "isWhole (price item * 2 ^ j)" and "isWhole (quantity item)"
        using w by simp_all
      then have "isWhole (price item * 2 ^ j * quantity item)"
        by (rule isWhole_mult)
      then show "isWhole (price item * quantity item * 2 ^ j)"
        by (simp add: ac_simps)
    qed
  qed (use b j in simp_all)
  finally show ?thesis .
qed

text \<open>
  C5, where the arithmetic of doubles is exact. The count is the sum of the quantities
  when the quantities are whole numbers and the sum of their sizes is \<open>2\<^sup>5\<^sup>3\<close> at most. The
  total is the sum, over the entries, of price times quantity when the quantities are
  whole numbers, the prices are whole multiples of \<open>2\<^sup>-\<^sup>j\<close> (whole numbers for \<open>j = 0\<close>), and
  the sum of the sizes of the products, in units of \<open>2\<^sup>-\<^sup>j\<close>, is \<open>2\<^sup>5\<^sup>3\<close> at most. For a cart of
  two entries, one of price 10 and quantity 2 and one of price 5 and quantity 1, the
  count is 3 and the total is 25. (In general every product and every partial sum, from
  the left, is rounded to the nearest double.)
\<close>

theorem cart_aggregates:
  "((\<forall>item \<in> set (cart s). isWhole (quantity item))
      \<and> (\<Sum>item\<leftarrow>cart s. \<bar>quantity item\<bar>) \<le> 9007199254740992 \<longrightarrow>
     cartCount s = (\<Sum>item\<leftarrow>cart s. quantity item))
   \<and> ((\<forall>item \<in> set (cart s). isWhole (quantity item) \<and> isWhole (price item * 2 ^ j))
      \<and> (\<Sum>item\<leftarrow>cart s. \<bar>price item * quantity item\<bar>) * 2 ^ j \<le> 9007199254740992
      \<and> j \<le> 1074 \<longrightarrow>
     cartTotal s = (\<Sum>item\<leftarrow>cart s. price item * quantity item))
   \<and> cartCount (s\<lparr>cart := [a\<lparr>price := 10, quantity := 2\<rparr>, b\<lparr>price := 5, quantity := 1\<rparr>]\<rparr>) = 3
   \<and> cartTotal (s\<lparr>cart := [a\<lparr>price := 10, quantity := 2\<rparr>, b\<lparr>price := 5, quantity := 1\<rparr>]\<rparr>) = 25"
proof (intro conjI impI)
  assume "(\<forall>item \<in> set (cart s). isWhole (quantity item))
      \<and> (\<Sum>item\<leftarrow>cart s. \<bar>quantity item\<bar>) \<le> 9007199254740992"
  then show "cartCount s = (\<Sum>item\<leftarrow>cart s. quantity item)"
    by (simp add: cartCount_exact)
next
  assume "(\<forall>item \<in> set (cart s). isWhole (quantity item) \<and> isWhole (price item * 2 ^ j))
      \<and> (\<Sum>item\<leftarrow>cart s. \<bar>price item * quantity item\<bar>) * 2 ^ j \<le> 9007199254740992
      \<and> j \<le> 1074"
  then show "cartTotal s = (\<Sum>item\<leftarrow>cart s. price item * quantity item)"
    using cartTotal_exact [of s j] by blast
next
  show "cartCount (s\<lparr>cart := [a\<lparr>price := 10, quantity := 2\<rparr>, b\<lparr>price := 5, quantity := 1\<rparr>]\<rparr>) = 3"
    by (simp add: cartCount_def plusNumber_def roundDouble_small)
  show "cartTotal (s\<lparr>cart := [a\<lparr>price := 10, quantity := 2\<rparr>, b\<lparr>price := 5, quantity := 1\<rparr>]\<rparr>) = 25"
    by (simp add: cartTotal_def plusNumber_def timesNumber_def roundDouble_small)
qed

theorem cart_aggregates_witness:
  "cartCount (initialApp\<lparr>cart :=
       [(Product.extend (hd sampleProducts) (CartItem.fields 2))\<lparr>price := 21 / 2\<rparr>,
        (Product.extend (hd sampleProducts) (CartItem.fields 1))\<lparr>id' := 2, price := 5\<rparr>]\<rparr>) = 3
   \<and> cartTotal (initialApp\<lparr>cart :=
       [(Product.extend (hd sampleProducts) (CartItem.fields 2))\<lparr>price := 21 / 2\<rparr>,
        (Product.extend (hd sampleProducts) (CartItem.fields 1))\<lparr>id' := 2, price := 5\<rparr>]\<rparr>) = 26"
proof -
  let ?c = "[(Product.extend (hd sampleProducts) (CartItem.fields 2))\<lparr>price := 21 / 2\<rparr>,
        (Product.extend (hd sampleProducts) (CartItem.fields 1))\<lparr>id' := 2, price := 5\<rparr>]"
  let ?s = "initialApp\<lparr>cart := ?c\<rparr>"
  have c: "cart ?s = ?c"
    by simp
  have h1: "(\<forall>item \<in> set (cart ?s). isWhole (quantity item))
      \<and> (\<Sum>item\<leftarrow>cart ?s. \<bar>quantity item\<bar>) \<le> 9007199254740992"
    unfolding c by (simp add: isWhole_def newItem_quantity)
  have h2: "(\<forall>item \<in> set (cart ?s). isWhole (quantity item) \<and> isWhole (price item * 2 ^ 1))
      \<and> (\<Sum>item\<leftarrow>cart ?s. \<bar>price item * quantity item\<bar>) * 2 ^ 1 \<le> 9007199254740992
      \<and> (1::nat) \<le> 1074"
    unfolding c by (simp add: isWhole_def newItem_quantity)
  have "cartCount ?s = (\<Sum>item\<leftarrow>cart ?s. quantity item)"
    using cart_aggregates [of ?s 1] h1 by blast
  then have 1: "cartCount ?s = 3"
    unfolding c by (simp add: newItem_quantity)
  have "cartTotal ?s = (\<Sum>item\<leftarrow>cart ?s. price item * quantity item)"
    using cart_aggregates [of ?s 1] h2 by blast
  then have 2: "cartTotal ?s = 26"
    unfolding c by (simp add: newItem_quantity)
  show ?thesis
    using 1 2 by blast
qed

text \<open>
  Without these conditions the aggregates are not the sums: for two entries of quantity
  1 with the prices 0.1 and 0.2 the total is 0.30000000000000004, not the sum of the
  two prices; for two entries with the quantities \<open>2\<^sup>5\<^sup>3\<close> and 1 the count is \<open>2\<^sup>5\<^sup>3\<close>.
\<close>

theorem cart_aggregates_counterexample:
  "cartTotal (initialApp\<lparr>cart :=
       [(Product.extend (hd sampleProducts) (CartItem.fields 1))\<lparr>price := numberLiteral (1 / 10)\<rparr>,
        (Product.extend (hd sampleProducts) (CartItem.fields 1))
          \<lparr>id' := 2, price := numberLiteral (2 / 10)\<rparr>]\<rparr>)
     = 1351079888211149 / 4503599627370496
   \<and> (\<Sum>item\<leftarrow>[(Product.extend (hd sampleProducts) (CartItem.fields 1))
                      \<lparr>price := numberLiteral (1 / 10)\<rparr>,
                  (Product.extend (hd sampleProducts) (CartItem.fields 1))
                      \<lparr>id' := 2, price := numberLiteral (2 / 10)\<rparr>]. price item * quantity item)
     = 10808639105689191 / 36028797018963968
   \<and> cartTotal (initialApp\<lparr>cart :=
       [(Product.extend (hd sampleProducts) (CartItem.fields 1))\<lparr>price := numberLiteral (1 / 10)\<rparr>,
        (Product.extend (hd sampleProducts) (CartItem.fields 1))
          \<lparr>id' := 2, price := numberLiteral (2 / 10)\<rparr>]\<rparr>)
     \<noteq> (\<Sum>item\<leftarrow>[(Product.extend (hd sampleProducts) (CartItem.fields 1))
                      \<lparr>price := numberLiteral (1 / 10)\<rparr>,
                  (Product.extend (hd sampleProducts) (CartItem.fields 1))
                      \<lparr>id' := 2, price := numberLiteral (2 / 10)\<rparr>]. price item * quantity item)
   \<and> cartCount (initialApp\<lparr>cart :=
       [Product.extend (hd sampleProducts) (CartItem.fields 9007199254740992),
        (Product.extend (hd sampleProducts) (CartItem.fields 1))\<lparr>id' := 2\<rparr>]\<rparr>)
     = 9007199254740992"
  by code_simp

subsection \<open>The view filter\<close>











text \<open>The filter at work on the sample catalog.\<close>

lemma filteredProducts_example:
  "filteredProducts (initialApp\<lparr>products := sampleProducts, searchQuery := ''WIRELESS''\<rparr>)
     = sampleProducts
   \<and> filteredProducts (initialApp\<lparr>products := sampleProducts, searchQuery := ''shoe''\<rparr>) = []
   \<and> filteredProducts (initialApp\<lparr>products := sampleProducts, currentFilter := ''jewelery''\<rparr>)
     = []"
  by code_simp

subsection \<open>Checkout\<close>

lemma digits_small: "n < 10 \<Longrightarrow> digits n = [digitChar n]"
  by (subst digits.simps) simp

lemma digits_step: "10 \<le> n \<Longrightarrow> digits n = digits (n div 10) @ [digitChar (n mod 10)]"
  by (subst digits.simps) simp

lemma digits_two:
  "10 \<le> n \<Longrightarrow> n < 100 \<Longrightarrow> digits n = [digitChar (n div 10), digitChar (n mod 10)]"
  by (subst digits_step) (simp_all add: digits_small)

lemma digits_hundred:
  assumes "100 \<le> n"
  shows "digits n = digits (n div 100) @ [digitChar (n div 10 mod 10), digitChar (n mod 10)]"
proof -
  have "digits n = digits (n div 10) @ [digitChar (n mod 10)]"
    using assms by (intro digits_step) simp
  also have "digits (n div 10) = digits (n div 10 div 10) @ [digitChar (n div 10 mod 10)]"
    using assms by (intro digits_step) simp
  also have "n div 10 div 10 = n div 100"
    by (simp add: zdiv_zmult2_eq [symmetric])
  finally show ?thesis by simp
qed

lemma digits_nonempty: "digits n \<noteq> []"
  by (subst digits.simps) simp

lemma length_digits_hundred: "100 \<le> n \<Longrightarrow> 2 < length (digits n)"
  using digits_nonempty [of "n div 100"]
  by (simp add: digits_hundred Suc_le_eq)

text \<open>The digit characters are the characters \<^verbatim>\<open>0\<close> to \<^verbatim>\<open>9\<close>, in this order.\<close>

lemma digitChar_value:
  assumes "0 \<le> d" and "d < 10"
  shows "isDigit (digitChar d) \<and> digitValue (digitChar d) = d"
proof -
  have "d = 0 \<or> d = 1 \<or> d = 2 \<or> d = 3 \<or> d = 4 \<or> d = 5 \<or> d = 6 \<or> d = 7 \<or> d = 8 \<or> d = 9"
    using assms by arith
  then show ?thesis
    by (elim disjE) (simp_all add: digitChar_def isDigit_def digitValue_def)
qed

lemma decimalValue_snoc: "decimalValue (str @ [c]) = 10 * decimalValue str + digitValue c"
  by (simp add: decimalValue_def)

text \<open>The digits of a number are digits, and read back they give the number.\<close>

lemma digits_value:
  "0 \<le> n \<Longrightarrow> list_all isDigit (digits n) \<and> decimalValue (digits n) = n"
proof (induction n rule: digits.induct)
  case (1 n)
  show ?case
  proof (cases "n < 10")
    case True
    then show ?thesis
      using digitChar_value [of n] 1(2)
      by (simp add: digits_small decimalValue_def)
  next
    case False
    then have s: "digits n = digits (n div 10) @ [digitChar (n mod 10)]"
      by (simp add: digits_step)
    have "list_all isDigit (digits (n div 10)) \<and> decimalValue (digits (n div 10)) = n div 10"
      using 1 False by simp
    moreover have "isDigit (digitChar (n mod 10)) \<and> digitValue (digitChar (n mod 10)) = n mod 10"
      by (rule digitChar_value) simp_all
    ultimately show ?thesis
      unfolding s by (simp add: decimalValue_snoc)
  qed
qed

lemma digits_no_leading_zero: "1 \<le> n \<Longrightarrow> hd (digits n) \<noteq> CHR ''0''"
proof (induction n rule: digits.induct)
  case (1 n)
  show ?case
  proof (cases "n < 10")
    case True
    have "digitValue (digitChar n) = n"
      using digitChar_value [of n] True 1(2) by simp
    moreover have "digitValue (CHR ''0'') = 0"
      by (simp add: digitValue_def)
    ultimately have "digitChar n \<noteq> CHR ''0''"
      using 1(2) by auto
    then show ?thesis
      using True by (simp add: digits_small)
  next
    case False
    then have s: "digits n = digits (n div 10) @ [digitChar (n mod 10)]"
      by (simp add: digits_step)
    have "hd (digits (n div 10)) \<noteq> CHR ''0''"
      using 1 False by simp
    then show ?thesis
      unfolding s using digits_nonempty [of "n div 10"] by simp
  qed
qed

lemma digits_zero: "digits 0 = ''0''"
  by (simp add: digits_small digitChar_def)

text \<open>\<^verbatim>\<open>toFixed(2)\<close> below \<open>10\<^sup>2\<^sup>1\<close>: the padding puts the point before the last two digits.\<close>

lemma pad_split:
  assumes "0 \<le> n"
  shows "(let m0 = digits n;
        m = (if length m0 \<le> 2 then replicate (3 - length m0) (CHR ''0'') @ m0 else m0);
        k = length m
    in take (k - 2) m @ ''.'' @ drop (k - 2) m)
    = digits (n div 100) @ ''.'' @ [digitChar (n div 10 mod 10), digitChar (n mod 10)]"
proof -
  consider "n < 10" | "10 \<le> n" "n < 100" | "100 \<le> n" by linarith
  then show ?thesis
  proof cases
    case 1
    then show ?thesis
      using assms
      by (simp add: digits_small Let_def numeral_3_eq_3 digitChar_def)
  next
    case 2
    then show ?thesis
      by (simp add: digits_two digits_small Let_def digitChar_def)
  next
    case 3
    have l: "\<not> length (digits n) \<le> 2"
      using length_digits_hundred [OF 3] by simp
    have d: "digits n = digits (n div 100) @ [digitChar (n div 10 mod 10), digitChar (n mod 10)]"
      by (rule digits_hundred [OF 3])
    have "length (digits n) - 2 = length (digits (n div 100))"
      by (subst d) simp
    then show ?thesis
      unfolding Let_def using l
      by simp (simp add: d)
  qed
qed

lemma toFixed2_shape:
  assumes "\<bar>x\<bar> < 1000000000000000000000"
  shows "toFixed2 x =
      (if x < 0 then ''-'' else [])
      @ digits (\<lfloor>\<bar>x\<bar> * 100 + 1 / 2\<rfloor> div 100) @ ''.''
      @ [digitChar (\<lfloor>\<bar>x\<bar> * 100 + 1 / 2\<rfloor> div 10 mod 10), digitChar (\<lfloor>\<bar>x\<bar> * 100 + 1 / 2\<rfloor> mod 10)]"
proof -
  have a: "(if x < 0 then - x else x) = \<bar>x\<bar>" by simp
  have b: "\<not> 1000000000000000000000 \<le> \<bar>x\<bar>"
    using assms by simp
  have "0 \<le> \<lfloor>\<bar>x\<bar> * 100 + 1 / 2\<rfloor>" by simp
  then show ?thesis
    unfolding toFixed2_def a
    using pad_split [of "\<lfloor>\<bar>x\<bar> * 100 + 1 / 2\<rfloor>"] b
    by (simp only: Let_def append_assoc if_False)
qed

text \<open>
  The string \<^verbatim>\<open>toFixed(2)\<close> gives below \<open>10\<^sup>2\<^sup>1\<close>, without reference to how the model
  makes digits: a sign, the digits of a whole part, the point and two more digits, which
  read together as the number of hundredths nearest to the argument.
\<close>

lemma toFixed2_reads:
  assumes "\<bar>x\<bar> < 1000000000000000000000"
  shows "\<exists>whole frac.
      toFixed2 x = (if x < 0 then ''-'' else []) @ whole @ ''.'' @ frac
      \<and> length frac = 2 \<and> list_all isDigit whole \<and> list_all isDigit frac
      \<and> (whole = ''0'' \<or> hd whole \<noteq> CHR ''0'') \<and> whole \<noteq> []
      \<and> 100 * decimalValue whole + decimalValue frac = \<lfloor>\<bar>x\<bar> * 100 + 1 / 2\<rfloor>"
proof -
  define n where "n = \<lfloor>\<bar>x\<bar> * 100 + 1 / 2\<rfloor>"
  define whole where "whole = digits (n div 100)"
  define frac where "frac = [digitChar (n div 10 mod 10), digitChar (n mod 10)]"
  have n: "0 \<le> n"
    by (simp add: n_def)
  have s: "toFixed2 x = (if x < 0 then ''-'' else []) @ whole @ ''.'' @ frac"
    using toFixed2_shape [OF assms] by (simp add: n_def whole_def frac_def)
  have w: "list_all isDigit whole \<and> decimalValue whole = n div 100"
    unfolding whole_def using n by (intro digits_value) simp
  have d1: "isDigit (digitChar (n div 10 mod 10))
      \<and> digitValue (digitChar (n div 10 mod 10)) = n div 10 mod 10"
    by (rule digitChar_value) simp_all
  have d2: "isDigit (digitChar (n mod 10)) \<and> digitValue (digitChar (n mod 10)) = n mod 10"
    by (rule digitChar_value) simp_all
  have f: "list_all isDigit frac \<and> decimalValue frac = 10 * (n div 10 mod 10) + n mod 10"
    using d1 d2 by (simp add: frac_def decimalValue_def)
  have z: "whole = ''0'' \<or> hd whole \<noteq> CHR ''0''"
  proof (cases "n div 100 = 0")
    case True
    then show ?thesis by (simp add: whole_def digits_zero)
  next
    case False
    moreover have "0 \<le> n div 100"
      using n by (simp add: pos_imp_zdiv_nonneg_iff)
    ultimately have "1 \<le> n div 100"
      by linarith
    then show ?thesis
      by (simp add: whole_def digits_no_leading_zero)
  qed
  have "n div 10 div 10 = n div 100"
    by (simp add: zdiv_zmult2_eq [symmetric])
  moreover have "n = 10 * (n div 10) + n mod 10"
    and "n div 10 = 10 * (n div 10 div 10) + n div 10 mod 10"
    by simp_all
  ultimately have "100 * (n div 100) + (10 * (n div 10 mod 10) + n mod 10) = n"
    by linarith
  then have v: "100 * decimalValue whole + decimalValue frac = \<lfloor>\<bar>x\<bar> * 100 + 1 / 2\<rfloor>"
    using w f by (simp add: n_def)
  have "length frac = 2" and "whole \<noteq> []"
    by (simp_all add: frac_def whole_def digits_nonempty)
  then show ?thesis
    using s w f z v by blast
qed

text \<open>\<^verbatim>\<open>Number::toString\<close> on the whole numbers from 0 up to \<open>2\<^sup>5\<^sup>3\<close>: their decimal digits.\<close>

lemma tenTo_power: "tenTo k = 10 ^ nat k"
proof (induction k rule: tenTo.induct)
  case (1 k)
  show ?case
  proof (cases "k \<le> 0")
    case True
    then show ?thesis by (subst tenTo.simps) simp
  next
    case False
    then have "nat k = Suc (nat (k - 1))"
      by simp
    then show ?thesis
      using 1 False by (subst tenTo.simps) simp
  qed
qed

lemma pow10_nat: "0 \<le> k \<Longrightarrow> pow10 k = 10 ^ nat k"
  by (simp add: pow10_def tenTo_power)

lemma digits_bounds:
  "1 \<le> n \<Longrightarrow> 10 ^ (length (digits n) - 1) \<le> n \<and> n < 10 ^ length (digits n)"
proof (induction n rule: digits.induct)
  case (1 n)
  show ?case
  proof (cases "n < 10")
    case True
    then show ?thesis
      using 1(2) by (simp add: digits_small)
  next
    case False
    then have s: "digits n = digits (n div 10) @ [digitChar (n mod 10)]"
      by (simp add: digits_step)
    define l where "l = length (digits (n div 10))"
    have "10 ^ (l - 1) \<le> n div 10 \<and> n div 10 < 10 ^ l"
      unfolding l_def using 1 False by simp
    then have a: "10 ^ (l - 1) \<le> n div 10" and b: "n div 10 < 10 ^ l"
      by simp_all
    have "l \<noteq> 0"
      using digits_nonempty [of "n div 10"] by (simp add: l_def)
    then obtain l' where l: "l = Suc l'"
      by (cases l) simp_all
    have "10 * 10 ^ l' \<le> 10 * (n div 10)"
      using a by (simp add: l)
    also have "\<dots> \<le> n"
      by simp
    finally have lo: "10 ^ l \<le> n"
      by (simp add: l)
    have "10 * (n div 10) + 10 \<le> 10 * 10 ^ l"
      using b by simp
    moreover have "n < 10 * (n div 10) + 10"
      by simp
    ultimately have hi: "n < 10 ^ Suc l"
      by simp
    show ?thesis
      unfolding s using lo hi by (simp add: l_def)
  qed
qed

lemma digits_times_ten: "1 \<le> n \<Longrightarrow> digits (n * 10) = digits n @ ''0''"
  by (subst digits_step) (simp_all add: digitChar_def)

lemma digits_times_power:
  "1 \<le> n \<Longrightarrow> digits (n * 10 ^ j) = digits n @ replicate j (CHR ''0'')"
proof (induction j)
  case 0
  show ?case by simp
next
  case (Suc j)
  have "1 * 1 \<le> n * 10 ^ j"
    using Suc(2) by (intro mult_mono) simp_all
  then have "digits (n * 10 ^ j * 10) = digits (n * 10 ^ j) @ ''0''"
    by (intro digits_times_ten) simp
  moreover have "n * 10 ^ Suc j = n * 10 ^ j * 10"
    by simp
  ultimately show ?case
    using Suc by (simp only: append_assoc replicate_Suc replicate_append_same append_Cons append_Nil)
qed

lemma floor_divide_power_ten: "\<lfloor>(of_int m :: rat) / 10 ^ j\<rfloor> = m div 10 ^ j"
  using floor_divide_of_int_eq [of m "10 ^ j", where ?'a = rat] by simp

text \<open>
  In the search for the digits of a whole number \<open>m\<close> below \<open>2\<^sup>5\<^sup>3\<close>, the candidate below
  fits when the power of ten divides \<open>m\<close>, and the candidate above never fits.
\<close>

lemma candidate_below:
  assumes "0 \<le> m" and "m < 9007199254740992"
  shows "roundDouble (of_int (m div 10 ^ j) * 10 ^ j) = of_int m \<longleftrightarrow> m div 10 ^ j * 10 ^ j = m"
proof -
  define c where "c = m div 10 ^ j * 10 ^ j"
  have "m div 10 ^ j * 10 ^ j + m mod 10 ^ j = m"
    by (rule div_mult_mod_eq)
  moreover have "0 \<le> m mod 10 ^ j"
    by simp
  ultimately have "c \<le> m"
    unfolding c_def by linarith
  have "0 \<le> m div 10 ^ j"
    using assms(1) by (simp add: pos_imp_zdiv_nonneg_iff)
  then have "0 \<le> c"
    by (simp add: c_def)
  have "\<bar>c\<bar> \<le> 2 ^ 53"
    using \<open>0 \<le> c\<close> \<open>c \<le> m\<close> assms(2) by simp
  then have "roundDouble (of_int c) = of_int c"
    by (rule roundDouble_integer)
  moreover have "(of_int c :: rat) = of_int (m div 10 ^ j) * 10 ^ j"
    by (simp add: c_def)
  ultimately have "roundDouble (of_int (m div 10 ^ j) * 10 ^ j) = of_int c"
    by simp
  then have "roundDouble (of_int (m div 10 ^ j) * 10 ^ j) = of_int m
      \<longleftrightarrow> (of_int c :: rat) = of_int m"
    by simp
  also have "\<dots> \<longleftrightarrow> c = m"
    by (simp only: of_int_eq_iff)
  finally show ?thesis
    unfolding c_def .
qed

lemma candidate_above:
  assumes "0 \<le> m" and "m < 9007199254740992"
  shows "roundDouble (of_int (m div 10 ^ j + 1) * 10 ^ j) \<noteq> of_int m"
proof -
  define c where "c = (m div 10 ^ j + 1) * 10 ^ j"
  have r: "(of_int c :: rat) = of_int (m div 10 ^ j + 1) * 10 ^ j"
    by (simp add: c_def)
  have "m div 10 ^ j * 10 ^ j + m mod 10 ^ j = m"
    by (rule div_mult_mod_eq)
  moreover have "m mod 10 ^ j < 10 ^ j"
    by simp
  ultimately have "m < m div 10 ^ j * 10 ^ j + 10 ^ j"
    by linarith
  then have gt: "m < c"
    by (simp add: c_def algebra_simps)
  show ?thesis
  proof (cases "c \<le> 2 ^ 53")
    case True
    then have "\<bar>c\<bar> \<le> 2 ^ 53"
      using gt assms(1) by simp
    then have "roundDouble (of_int c) = of_int c"
      by (rule roundDouble_integer)
    then show ?thesis
      unfolding r [symmetric] using gt by simp
  next
    case False
    then have "(2 :: int) ^ 53 \<le> c"
      by simp
    then have "(of_int ((2 :: int) ^ 53) :: rat) \<le> of_int c"
      by (simp only: of_int_le_iff)
    then have "pow2 53 \<le> of_int c"
      by (simp add: pow2_nat)
    then have "pow2 53 \<le> roundDouble (of_int c)"
      by (intro roundDouble_ge_pow2) simp_all
    moreover have "(of_int m :: rat) < of_int 9007199254740992"
      using assms(2) by (simp only: of_int_less_iff)
    then have "(of_int m :: rat) < pow2 53"
      by (simp add: pow2_nat)
    ultimately show ?thesis
      unfolding r [symmetric] by linarith
  qed
qed

lemma shortest_stop:
  assumes "0 \<le> m" and "m < 9007199254740992" and "0 \<le> n - k"
    and "m div 10 ^ nat (n - k) * 10 ^ nat (n - k) = m" and "m div 10 ^ nat (n - k) \<noteq> tenTo k"
  shows "shortest fuel k (of_int m) n = (m div 10 ^ nat (n - k), n)"
  using assms candidate_below [of m "nat (n - k)"] candidate_above [of m "nat (n - k)"]
  by (subst shortest.simps)
    (simp add: Let_def pow10_nat floor_divide_power_ten del: of_int_add of_int_mult)

lemma shortest_continue:
  assumes "0 \<le> m" and "m < 9007199254740992" and "0 \<le> n - k"
    and "m div 10 ^ nat (n - k) * 10 ^ nat (n - k) \<noteq> m" and "fuel \<noteq> 0"
  shows "shortest fuel k (of_int m) n = shortest (fuel - 1) (k + 1) (of_int m) n"
  using assms candidate_below [of m "nat (n - k)"] candidate_above [of m "nat (n - k)"]
  by (subst shortest.simps)
    (simp add: Let_def pow10_nat floor_divide_power_ten del: of_int_add of_int_mult)

lemma shortest_integer:
  assumes m: "1 \<le> m" "m < 9007199254740992"
  shows "1 \<le> k \<Longrightarrow> k \<le> int (length (digits m)) \<Longrightarrow> int (length (digits m)) - k \<le> int fuel \<Longrightarrow>
    \<exists>s j. shortest fuel k (of_int m) (int (length (digits m))) = (s, int (length (digits m)))
      \<and> 1 \<le> s \<and> m = s * 10 ^ j"
proof (induction fuel arbitrary: k)
  case 0
  then have k: "k = int (length (digits m))"
    by simp
  have "m \<noteq> tenTo k"
    using digits_bounds [of m] m(1) by (simp add: tenTo_power k)
  then have "shortest 0 k (of_int m) (int (length (digits m))) = (m, int (length (digits m)))"
    using shortest_stop [of m "int (length (digits m))" k 0] m by (simp add: k)
  moreover have "m = m * 10 ^ 0"
    by simp
  ultimately show ?case
    using m(1) by blast
next
  case (Suc fuel)
  define L where "L = int (length (digits m))"
  define j where "j = nat (L - k)"
  define lo where "lo = m div 10 ^ j"
  have kL: "0 \<le> L - k"
    using Suc.prems by (simp add: L_def)
  show ?case
  proof (cases "lo * 10 ^ j = m")
    case True
    have "0 < lo * 10 ^ j"
      using True m(1) by simp
    then have pos: "0 < lo"
      by (simp add: zero_less_mult_iff)
    have "nat k + j = length (digits m)"
      using Suc.prems by (simp add: j_def L_def)
    then have "(10 :: int) ^ nat k * 10 ^ j = 10 ^ length (digits m)"
      by (simp add: power_add [symmetric])
    moreover have "lo * 10 ^ j < 10 ^ length (digits m)"
      using digits_bounds [of m] m(1) True by simp
    ultimately have "lo * 10 ^ j < 10 ^ nat k * 10 ^ j"
      by simp
    then have "lo < 10 ^ nat k"
      by simp
    then have "lo \<noteq> tenTo k"
      by (simp add: tenTo_power)
    then have "shortest (Suc fuel) k (of_int m) L = (lo, L)"
      using shortest_stop [of m L k "Suc fuel"] m True kL
      by (simp add: lo_def j_def)
    then show ?thesis
      unfolding L_def [symmetric] using pos True by (metis add_0 zless_imp_add1_zle)
  next
    case False
    have "k \<noteq> L"
    proof
      assume "k = L"
      then have "lo * 10 ^ j = m"
        by (simp add: lo_def j_def)
      then show False
        using False by simp
    qed
    then have k1: "k + 1 \<le> L"
      using Suc.prems by (simp add: L_def)
    have "shortest (Suc fuel) k (of_int m) L = shortest fuel (k + 1) (of_int m) L"
      using shortest_continue [of m L k "Suc fuel"] m False kL
      by (simp add: lo_def j_def)
    moreover have "\<exists>s j. shortest fuel (k + 1) (of_int m) (int (length (digits m)))
        = (s, int (length (digits m))) \<and> 1 \<le> s \<and> m = s * 10 ^ j"
      using Suc.prems k1 by (intro Suc.IH) (simp_all add: L_def)
    ultimately show ?thesis
      by (simp add: L_def)
  qed
qed

lemma length_digits_safe:
  assumes "1 \<le> m" and "m < 9007199254740992"
  shows "length (digits m) \<le> 16"
proof -
  have "(10 :: int) ^ (length (digits m) - 1) \<le> m"
    using digits_bounds [of m] assms(1) by simp
  also have "m < 10 ^ 16"
    using assms(2) by simp
  finally have "length (digits m) - 1 < 16"
    by (simp only: power_strict_increasing_iff [of "10 :: int"]
        semiring_norm)
  then show ?thesis
    by simp
qed

lemma positiveToString_integer:
  assumes "1 \<le> m" and "m < 9007199254740992"
  shows "positiveToString (of_int m) = digits m"
proof -
  define L where "L = int (length (digits m))"
  have l16: "L \<le> 16"
    using length_digits_safe [OF assms] by (simp add: L_def)
  have l1: "1 \<le> L"
    using digits_nonempty [of m] by (simp add: L_def Suc_le_eq)
  have "(1 :: rat) \<le> of_int m"
    using assms(1) by simp
  then have e: "decimalExponent (of_int m) + 1 = L"
    by (simp add: decimalExponent_def L_def)
  obtain s j where sh: "shortest 16 1 (of_int m) L = (s, L)" and s: "1 \<le> s"
    and mj: "m = s * 10 ^ j"
    using shortest_integer [OF assms, of 1 16] l1 l16 unfolding L_def by auto
  have d: "digits m = digits s @ replicate j (CHR ''0'')"
    unfolding mj using s by (rule digits_times_power)
  then have len: "L = int (length (digits s)) + int j"
    by (simp add: L_def)
  have "positiveToString (of_int m)
      = digits s @ replicate (nat (L - int (length (digits s)))) (CHR ''0'')"
    unfolding positiveToString_def e sh using len l16
    by (simp add: Let_def)
  also have "\<dots> = digits m"
    unfolding d using len by simp
  finally show ?thesis .
qed

lemma numberToString_integer:
  assumes "0 \<le> m" and "m < 9007199254740992"
  shows "numberToString (of_int m) = digits m"
proof (cases "m = 0")
  case True
  then show ?thesis
    by (simp add: numberToString_def digits_zero)
next
  case False
  then have "1 \<le> m"
    using assms(1) by simp
  then have "positiveToString (of_int m) = digits m"
    using assms(2) by (rule positiveToString_integer)
  moreover have "(0 :: rat) < of_int m"
    using \<open>1 \<le> m\<close> by simp
  ultimately show ?thesis
    by (simp add: numberToString_def)
qed

text \<open>
  The string a template literal puts in for a whole number from 0 up to \<open>2\<^sup>5\<^sup>3\<close>, without
  reference to how the model makes digits: decimal digits, no leading zero, which read
  back as the number.
\<close>

lemma numberToString_reads:
  assumes "isWhole c" and "0 \<le> c" and "c < 9007199254740992"
  shows "list_all isDigit (numberToString c)
    \<and> of_int (decimalValue (numberToString c)) = c
    \<and> (hd (numberToString c) = CHR ''0'' \<longrightarrow> numberToString c = ''0'')"
proof -
  define m where "m = \<lfloor>c\<rfloor>"
  have c: "c = of_int m"
    using assms(1) unfolding isWhole_def m_def by (rule sym)
  have m0: "0 \<le> m"
    using assms(2) by (simp add: m_def)
  have "(of_int m :: rat) < of_int 9007199254740992"
    using assms(3) unfolding c by simp
  then have m1: "m < 9007199254740992"
    by (simp only: of_int_less_iff)
  have n: "numberToString c = digits m"
    unfolding c using m0 m1 by (rule numberToString_integer)
  have "hd (digits m) = CHR ''0'' \<longrightarrow> digits m = ''0''"
  proof (cases "m = 0")
    case True
    then show ?thesis by (simp add: digits_zero)
  next
    case False
    then have "1 \<le> m"
      using m0 by simp
    then show ?thesis
      using digits_no_leading_zero [of m] by simp
  qed
  then show ?thesis
    unfolding n using digits_value [OF m0] by (simp add: c)
qed

text \<open>The two conversions at work; the strings are those JavaScript gives.\<close>

lemma toFixed2_examples:
  "toFixed2 25 = ''25.00'' \<and> toFixed2 (numberLiteral (12999 / 100)) = ''129.99''
   \<and> toFixed2 (1 / 8) = ''0.13'' \<and> toFixed2 (- 5 / 2) = ''-2.50'' \<and> toFixed2 0 = ''0.00''
   \<and> toFixed2 999999999999999868928 = ''999999999999999868928.00''
   \<and> toFixed2 1000000000000000000000 = ''1e+21''"
  by code_simp

lemma numberToString_examples:
  "numberToString 3 = ''3'' \<and> numberToString (1 / 2) = ''0.5''
   \<and> numberToString (- 3 / 2) = ''-1.5''
   \<and> numberToString 1000000000000000000000 = ''1e+21''"
  by code_simp

text \<open>
  C6. \<^verbatim>\<open>checkout()\<close> on an empty cart calls no \<^verbatim>\<open>alert\<close> and returns the state as it
  was. On a cart that is not empty it calls \<^verbatim>\<open>alert\<close> once, with the message made of the
  total as \<^verbatim>\<open>toFixed(2)\<close> writes it and the item count as a template literal writes it;
  afterwards the cart is empty and the rest of the state is as before. A total below
  \<open>10\<^sup>2\<^sup>1\<close> in size is written with two decimal places: a sign, the digits of a whole
  part without leading zero, the point and two digits, which read together as the number
  of hundredths nearest to the total. A count that is a whole number from 0 up to \<open>2\<^sup>5\<^sup>3\<close>
  is written as its decimal digits, without leading zero. (From \<open>10\<^sup>2\<^sup>1\<close> on the total is
  written with an exponent and without decimal places.)
\<close>

theorem checkout_cases:
  "(cart s = [] \<longrightarrow> checkout s = (None, s))
   \<and> (cart s \<noteq> [] \<longrightarrow>
        fst (checkout s)
          = Some (''Checkout successful!'' @ [CHR 0x0A] @ ''Total: '' @ toFixed2 (cartTotal s)
                  @ [CHR 0x0A] @ ''Items: '' @ numberToString (cartCount s))
      \<and> snd (checkout s) = s\<lparr>cart := []\<rparr>
      \<and> cart (snd (checkout s)) = []
      \<and> (\<bar>cartTotal s\<bar> < 1000000000000000000000 \<longrightarrow>
           (\<exists>whole frac.
              toFixed2 (cartTotal s)
                = (if cartTotal s < 0 then ''-'' else []) @ whole @ ''.'' @ frac
              \<and> length frac = 2 \<and> list_all isDigit whole \<and> list_all isDigit frac
              \<and> whole \<noteq> [] \<and> (hd whole = CHR ''0'' \<longrightarrow> whole = ''0'')
              \<and> 100 * decimalValue whole + decimalValue frac
                  = \<lfloor>\<bar>cartTotal s\<bar> * 100 + 1 / 2\<rfloor>))
      \<and> (isWhole (cartCount s) \<and> 0 \<le> cartCount s \<and> cartCount s < 9007199254740992 \<longrightarrow>
           list_all isDigit (numberToString (cartCount s))
           \<and> of_int (decimalValue (numberToString (cartCount s))) = cartCount s
           \<and> (hd (numberToString (cartCount s)) = CHR ''0'' \<longrightarrow>
                numberToString (cartCount s) = ''0'')))"
proof (intro conjI impI)
  assume "cart s = []"
  then show "checkout s = (None, s)"
    by (simp add: checkout_def)
next
  assume ne: "cart s \<noteq> []"
  show "fst (checkout s)
          = Some (''Checkout successful!'' @ [CHR 0x0A] @ ''Total: '' @ toFixed2 (cartTotal s)
                  @ [CHR 0x0A] @ ''Items: '' @ numberToString (cartCount s))"
    using ne by (simp add: checkout_def Let_def)
  show "snd (checkout s) = s\<lparr>cart := []\<rparr>"
    using ne by (simp add: checkout_def Let_def clearCart_def)
  then show "cart (snd (checkout s)) = []"
    by simp
next
  assume "\<bar>cartTotal s\<bar> < 1000000000000000000000"
  then obtain whole frac where
    "toFixed2 (cartTotal s) = (if cartTotal s < 0 then ''-'' else []) @ whole @ ''.'' @ frac"
    "length frac = 2" "list_all isDigit whole" "list_all isDigit frac"
    "whole = ''0'' \<or> hd whole \<noteq> CHR ''0''" "whole \<noteq> []"
    "100 * decimalValue whole + decimalValue frac = \<lfloor>\<bar>cartTotal s\<bar> * 100 + 1 / 2\<rfloor>"
    using toFixed2_reads [of "cartTotal s"] by blast
  then show "\<exists>whole frac.
              toFixed2 (cartTotal s)
                = (if cartTotal s < 0 then ''-'' else []) @ whole @ ''.'' @ frac
              \<and> length frac = 2 \<and> list_all isDigit whole \<and> list_all isDigit frac
              \<and> whole \<noteq> [] \<and> (hd whole = CHR ''0'' \<longrightarrow> whole = ''0'')
              \<and> 100 * decimalValue whole + decimalValue frac
                  = \<lfloor>\<bar>cartTotal s\<bar> * 100 + 1 / 2\<rfloor>"
    by blast
next
  assume a: "isWhole (cartCount s) \<and> 0 \<le> cartCount s \<and> cartCount s < 9007199254740992"
  have r: "list_all isDigit (numberToString (cartCount s))
    \<and> of_int (decimalValue (numberToString (cartCount s))) = cartCount s
    \<and> (hd (numberToString (cartCount s)) = CHR ''0'' \<longrightarrow> numberToString (cartCount s) = ''0'')"
    using a by (intro numberToString_reads) simp_all
  show "list_all isDigit (numberToString (cartCount s))"
    and "of_int (decimalValue (numberToString (cartCount s))) = cartCount s"
    using r by simp_all
  assume "hd (numberToString (cartCount s)) = CHR ''0''"
  then show "numberToString (cartCount s) = ''0''"
    using r by simp
qed

theorem checkout_cases_witness:
  "checkout initialApp = (None, initialApp)
   \<and> checkout (initialApp\<lparr>cart :=
         [(Product.extend (hd sampleProducts) (CartItem.fields 2))\<lparr>price := 10\<rparr>,
          (Product.extend (hd sampleProducts) (CartItem.fields 1))\<lparr>id' := 2, price := 5\<rparr>]\<rparr>)
       = (Some (''Checkout successful!'' @ [CHR 0x0A] @ ''Total: 25.00'' @ [CHR 0x0A] @ ''Items: 3''),
          initialApp)
   \<and> (\<exists>whole frac. ''25.00'' = whole @ ''.'' @ frac \<and> length frac = 2
         \<and> 100 * decimalValue whole + decimalValue frac = 2500)
   \<and> list_all isDigit ''3'' \<and> decimalValue ''3'' = 3"
proof -
  let ?c = "[(Product.extend (hd sampleProducts) (CartItem.fields 2))\<lparr>price := 10\<rparr>,
          (Product.extend (hd sampleProducts) (CartItem.fields 1))\<lparr>id' := 2, price := 5\<rparr>]"
  let ?s = "initialApp\<lparr>cart := ?c\<rparr>"
  have e: "cart initialApp = []"
    by (simp add: initialApp_def)
  have 1: "checkout initialApp = (None, initialApp)"
    using checkout_cases [of initialApp] e by blast
  have ne: "cart ?s \<noteq> []"
    by simp
  have tv: "cartTotal ?s = 25" and cv: "cartCount ?s = 3"
    by code_simp+
  have t: "toFixed2 25 = ''25.00''" and n: "numberToString 3 = ''3''"
    by code_simp+
  have h1: "\<bar>cartTotal ?s\<bar> < 1000000000000000000000"
    unfolding tv by simp
  have h2: "isWhole (cartCount ?s) \<and> 0 \<le> cartCount ?s \<and> cartCount ?s < 9007199254740992"
    unfolding cv by (simp add: isWhole_def)
  have f: "\<lfloor>\<bar>25 :: rat\<bar> * 100 + 1 / 2\<rfloor> = 2500"
    by code_simp
  note c = checkout_cases [of ?s]
  have "fst (checkout ?s)
          = Some (''Checkout successful!'' @ [CHR 0x0A] @ ''Total: '' @ toFixed2 (cartTotal ?s)
                  @ [CHR 0x0A] @ ''Items: '' @ numberToString (cartCount ?s))"
    and "snd (checkout ?s) = ?s\<lparr>cart := []\<rparr>"
    using c ne by blast+
  then have "fst (checkout ?s)
      = Some (''Checkout successful!'' @ [CHR 0x0A] @ ''Total: 25.00'' @ [CHR 0x0A] @ ''Items: 3'')"
    and "snd (checkout ?s) = initialApp"
    unfolding tv cv t n by (simp_all add: initialApp_def)
  then have 2: "checkout ?s
      = (Some (''Checkout successful!'' @ [CHR 0x0A] @ ''Total: 25.00'' @ [CHR 0x0A] @ ''Items: 3''),
          initialApp)"
    by (simp add: prod_eq_iff)
  have "\<exists>whole frac.
              toFixed2 (cartTotal ?s)
                = (if cartTotal ?s < 0 then ''-'' else []) @ whole @ ''.'' @ frac
              \<and> length frac = 2 \<and> list_all isDigit whole \<and> list_all isDigit frac
              \<and> whole \<noteq> [] \<and> (hd whole = CHR ''0'' \<longrightarrow> whole = ''0'')
              \<and> 100 * decimalValue whole + decimalValue frac
                  = \<lfloor>\<bar>cartTotal ?s\<bar> * 100 + 1 / 2\<rfloor>"
    using c ne h1 by blast
  then have 3: "\<exists>whole frac. ''25.00'' = whole @ ''.'' @ frac \<and> length frac = 2
         \<and> 100 * decimalValue whole + decimalValue frac = 2500"
    unfolding tv t f by auto
  have "list_all isDigit (numberToString (cartCount ?s))
           \<and> of_int (decimalValue (numberToString (cartCount ?s))) = cartCount ?s"
    using c ne h2 by blast
  then have "list_all isDigit ''3'' \<and> (of_int (decimalValue ''3'') :: rat) = of_int 3"
    unfolding cv n by simp
  then have 4: "list_all isDigit ''3'' \<and> decimalValue ''3'' = 3"
    by (simp only: of_int_eq_iff)
  show ?thesis
    using 1 2 3 4 by blast
qed

theorem checkout_cases_counterexample:
  "fst (checkout (updateCartItemQuantity 1 1000000000000000000000
          (addToCart 1 (initialApp\<lparr>products := sampleProducts\<rparr>))))
     = Some (''Checkout successful!'' @ [CHR 0x0A] @ ''Total: 1.2999000000000001e+23''
             @ [CHR 0x0A] @ ''Items: 1e+21'')"
  by code_simp

end
